theory Spec2Isabelle
  imports Complex_Main "HOL-Library.AList"
begin

section \<open>Data model (src/types/index.ts)\<close>

text \<open>
  The records follow the TypeScript interfaces. JavaScript numbers that hold a
  confidence or a cost are modelled as \<^typ>\<open>real\<close>, token counts and line numbers as
  \<^typ>\<open>nat\<close>, timestamps in milliseconds as \<^typ>\<open>int\<close>. Where two interfaces share a
  field name (\<open>oldName\<close>, \<open>newName\<close>, \<open>file\<close>), or a field name is a keyword of
  Isabelle, the field carries a short prefix.
\<close>

datatype LanguageType = typescript | javascript | python | go

record Safety =
  isApiSurface :: bool
  shouldAutofix :: bool
  reason :: string

record NamingSuggestion =
  oldName :: string
  newName :: string
  confidence :: real
  rationale :: string
  safety :: Safety
  alternatives :: "string list"

record RenameResult =
  success :: bool
  res_file :: string
  res_oldName :: string
  res_newName :: string
  referencesUpdated :: nat
  error :: "string option"

section \<open>Safety gate (src/rename/rename-orchestrator.ts, shouldAutoRename)\<close>

definition shouldAutoRename :: "NamingSuggestion \<Rightarrow> bool" where
  "shouldAutoRename suggestion =
     (if confidence suggestion < 0.85 then False
      else if \<not> shouldAutofix (safety suggestion) then False
      else if isApiSurface (safety suggestion) then False
      else True)"

text \<open>The suggestion of Scenario B, parameterised by its public-surface flag.\<close>

definition scenarioB :: "bool \<Rightarrow> NamingSuggestion" where
  "scenarioB api =
     \<lparr> oldName = ''data'', newName = ''userProfile'', confidence = 0.95,
       rationale = ''Describes the fetched user profile'',
       safety = \<lparr> isApiSurface = api, shouldAutofix = True, reason = ''Local variable'' \<rparr>,
       alternatives = [''userData''] \<rparr>"

section \<open>Diff interpreter (context/diff-parser.ts)\<close>

text \<open>
  JavaScript's \<open>split\<close> on a one-character separator: the pieces between the separators,
  so the empty string gives one empty piece and a trailing separator a last empty piece.
\<close>

fun splitOn :: "char \<Rightarrow> string \<Rightarrow> string list" where
  "splitOn sep [] = [[]]"
| "splitOn sep (c # cs) =
     (if c = sep then [] # splitOn sep cs
      else (case splitOn sep cs of
              [] \<Rightarrow> [[c]]
            | piece # pieces \<Rightarrow> (c # piece) # pieces))"

definition newline :: char where
  "newline = CHR 0x0A"

definition startsWith :: "string \<Rightarrow> string \<Rightarrow> bool" where
  "startsWith s p = (take (length p) s = p)"

text \<open>\<open>toLowerCase\<close> on the ASCII letters; other bytes are left as they are.\<close>

definition toLowerChar :: "char \<Rightarrow> char" where
  "toLowerChar c =
     (case map_of (zip ''ABCDEFGHIJKLMNOPQRSTUVWXYZ'' ''abcdefghijklmnopqrstuvwxyz'') c of
        None \<Rightarrow> c
      | Some l \<Rightarrow> l)"

definition toLowerCase :: "string \<Rightarrow> string" where
  "toLowerCase s = map toLowerChar s"

text \<open>\<open>filePath.split('.').pop()?.toLowerCase()\<close>: the text after the last dot, or the
  whole path when it has no dot.\<close>

definition fileExtension :: "string \<Rightarrow> string" where
  "fileExtension filePath = toLowerCase (last (splitOn (CHR ''.'') filePath))"

definition detectLanguage :: "string \<Rightarrow> LanguageType option" where
  "detectLanguage filePath =
     (let ext = fileExtension filePath in
      if ext = ''ts'' \<or> ext = ''tsx'' then Some typescript
      else if ext = ''js'' \<or> ext = ''jsx'' then Some javascript
      else if ext = ''py'' then Some python
      else if ext = ''go'' then Some go
      else None)"

definition isDigit :: "char \<Rightarrow> bool" where
  "isDigit c = (c \<in> set ''0123456789'')"

definition digitValue :: "char \<Rightarrow> nat" where
  "digitValue c = of_char c - 48"

text \<open>\<open>parseInt(digits, 10)\<close> on a run of decimal digits. Line numbers are natural
  numbers here; the rounding of JavaScript numbers beyond \<open>2^53\<close> is not modelled.\<close>

definition parseInt :: "string \<Rightarrow> nat" where
  "parseInt ds = foldl (\<lambda>acc d. 10 * acc + digitValue d) 0 ds"

text \<open>\<open>line.match(/\+(\d+)/)\<close>: the leftmost plus sign that is followed by a digit, with
  the longest run of digits after it.\<close>

fun hunkStart :: "string \<Rightarrow> nat option" where
  "hunkStart [] = None"
| "hunkStart (c # cs) =
     (if c = CHR ''+'' \<and> takeWhile isDigit cs \<noteq> [] then Some (parseInt (takeWhile isDigit cs))
      else hunkStart cs)"

record DiffLine =
  line :: nat
  content :: string

record PRDiff =
  diff_file :: string
  language :: LanguageType
  additions :: "DiffLine list"
  deletions :: "DiffLine list"
  modifications :: "DiffLine list"

text \<open>The variables of the loop in \<open>parseDiff\<close>.\<close>

record Walk =
  currentLine :: nat
  inHunk :: bool
  added :: "DiffLine list"
  deleted :: "DiffLine list"

definition initialWalk :: Walk where
  "initialWalk = \<lparr> currentLine = 0, inHunk = False, added = [], deleted = [] \<rparr>"

text \<open>One iteration of the loop over the lines of the diff.\<close>

definition parseLine :: "Walk \<Rightarrow> string \<Rightarrow> Walk" where
  "parseLine w l =
     (if startsWith l ''@@'' then
        (case hunkStart l of
           Some n \<Rightarrow> w\<lparr> currentLine := n, inHunk := True \<rparr>
         | None \<Rightarrow> w)
      else if \<not> inHunk w then w
      else if startsWith l ''+'' \<and> \<not> startsWith l ''+++'' then
        w\<lparr> added := added w @ [\<lparr> line = currentLine w, content = drop 1 l \<rparr>],
           currentLine := currentLine w + 1 \<rparr>
      else if startsWith l ''-'' \<and> \<not> startsWith l ''---'' then
        w\<lparr> deleted := deleted w @ [\<lparr> line = currentLine w, content = drop 1 l \<rparr>] \<rparr>
      else if startsWith l '' '' then
        w\<lparr> currentLine := currentLine w + 1 \<rparr>
      else w)"

definition walkDiff :: "string \<Rightarrow> Walk" where
  "walkDiff diffText = foldl parseLine initialWalk (splitOn newline diffText)"

text \<open>An addition is a modification when some deletion lies within two lines of it.\<close>

definition nearDeletion :: "DiffLine list \<Rightarrow> DiffLine \<Rightarrow> bool" where
  "nearDeletion dels addition =
     list_ex (\<lambda>del. \<bar>int (line del) - int (line addition)\<bar> \<le> 2) dels"

definition parseDiff :: "string \<Rightarrow> string \<Rightarrow> PRDiff option" where
  "parseDiff diffText filePath =
     (case detectLanguage filePath of
        None \<Rightarrow> None
      | Some lang \<Rightarrow>
          (let w = walkDiff diffText in
           Some \<lparr> diff_file = filePath, language = lang,
                  additions = added w, deletions = deleted w,
                  modifications = filter (nearDeletion (deleted w)) (added w) \<rparr>))"

text \<open>A line that opens a hunk: it starts with \<open>@@\<close> and carries a \<open>+digits\<close> field.\<close>

definition isHunkHeader :: "string \<Rightarrow> bool" where
  "isHunkHeader l = (startsWith l ''@@'' \<and> hunkStart l \<noteq> None)"

text \<open>The diff of Scenario A.\<close>

definition scenarioA :: string where
  "scenarioA =
     ''@@ -1,3 +1,4 @@\<newline> const x = 1;\<newline>+const data = fetchUser();\<newline> const y = 2;''"


section \<open>File system and log\<close>

text \<open>
  The file system maps a path to the content of the file there. Every file operation
  first takes the next entry of the fault stream: \<open>Some e\<close> makes the operation throw
  \<open>e\<close> (a permission error, a full disk), \<open>None\<close> or an exhausted stream lets it run.
  An exception is the string that \<open>String(error)\<close> gives. The log keeps the lines
  written by the orchestrator, in order.
\<close>

datatype LogLevel = DEBUG | INFO | WARN | ERROR

record World =
  files :: "string \<rightharpoonup> string"
  faults :: "string option list"
  logged :: "(LogLevel \<times> string) list"

type_synonym 'a io = "World \<Rightarrow> (string + 'a) \<times> World"

definition nextFault :: "World \<Rightarrow> string option \<times> World" where
  "nextFault w =
     (case faults w of
        [] \<Rightarrow> (None, w)
      | f # fs \<Rightarrow> (f, w\<lparr> faults := fs \<rparr>))"

definition enoent :: string where
  "enoent = ''Error: ENOENT: no such file or directory''"

definition copyFile :: "string \<Rightarrow> string \<Rightarrow> unit io" where
  "copyFile src dst w =
     (case nextFault w of
        (Some e, w') \<Rightarrow> (Inl e, w')
      | (None, w') \<Rightarrow>
          (case files w' src of
             None \<Rightarrow> (Inl enoent, w')
           | Some c \<Rightarrow> (Inr (), w'\<lparr> files := (files w')(dst \<mapsto> c) \<rparr>)))"

definition unlink :: "string \<Rightarrow> unit io" where
  "unlink path w =
     (case nextFault w of
        (Some e, w') \<Rightarrow> (Inl e, w')
      | (None, w') \<Rightarrow>
          (case files w' path of
             None \<Rightarrow> (Inl enoent, w')
           | Some c \<Rightarrow> (Inr (), w'\<lparr> files := (files w')(path := None) \<rparr>)))"

definition readFile :: "string \<Rightarrow> string io" where
  "readFile path w =
     (case nextFault w of
        (Some e, w') \<Rightarrow> (Inl e, w')
      | (None, w') \<Rightarrow>
          (case files w' path of
             None \<Rightarrow> (Inl enoent, w')
           | Some c \<Rightarrow> (Inr c, w')))"

definition writeFile :: "string \<Rightarrow> string \<Rightarrow> unit io" where
  "writeFile path c w =
     (case nextFault w of
        (Some e, w') \<Rightarrow> (Inl e, w')
      | (None, w') \<Rightarrow> (Inr (), w'\<lparr> files := (files w')(path \<mapsto> c) \<rparr>))"

definition logMsg :: "LogLevel \<Rightarrow> string \<Rightarrow> World \<Rightarrow> World" where
  "logMsg level msg w = w\<lparr> logged := logged w @ [(level, msg)] \<rparr>"

section \<open>Fallback rename (rename/python-renamer.ts, rename/go-renamer.ts)\<close>

text \<open>
  The regular expression \<open>\bNAME\b\<close> with the global flag, for a name that is matched
  literally (an identifier of letters, digits and underscores has no character with a
  meaning in a regular expression or in a replacement string). \<open>prevWord\<close> tells whether
  the character before the current position is a word character; the start of the text
  counts as a non-word character, as does its end.
\<close>

definition isWordChar :: "char \<Rightarrow> bool" where
  "isWordChar c =
     (c \<in> set ''abcdefghijklmnopqrstuvwxyzABCDEFGHIJKLMNOPQRSTUVWXYZ0123456789_'')"

definition wordBoundary :: "bool \<Rightarrow> string \<Rightarrow> bool" where
  "wordBoundary prevWord rest =
     (prevWord \<noteq> (case rest of [] \<Rightarrow> False | c # cs \<Rightarrow> isWordChar c))"

definition matchesAt :: "string \<Rightarrow> bool \<Rightarrow> string \<Rightarrow> bool" where
  "matchesAt name prevWord rest =
     (wordBoundary prevWord rest \<and> startsWith rest name
      \<and> wordBoundary (if name = [] then prevWord else isWordChar (last name))
           (drop (length name) rest))"

text \<open>\<open>content.match(regex)\<close>: the number of matches, scanning from the left; after a
  match the scan goes on behind it (one character further when the match is empty).\<close>

function countMatches :: "string \<Rightarrow> bool \<Rightarrow> string \<Rightarrow> nat" where
  "countMatches name prevWord [] = (if matchesAt name prevWord [] then 1 else 0)"
| "countMatches name prevWord (c # cs) =
     (if matchesAt name prevWord (c # cs) then
        (if name = [] then 1 + countMatches name (isWordChar c) cs
         else 1 + countMatches name (isWordChar (last name)) (drop (length name) (c # cs)))
      else countMatches name (isWordChar c) cs)"
  by pat_completeness auto
termination
  by (relation "measure (\<lambda>(name, prevWord, rest). length rest)") auto

text \<open>\<open>content.replace(regex, newName)\<close>: every match is replaced.\<close>

function replaceMatches :: "string \<Rightarrow> string \<Rightarrow> bool \<Rightarrow> string \<Rightarrow> string" where
  "replaceMatches name new prevWord [] = (if matchesAt name prevWord [] then new else [])"
| "replaceMatches name new prevWord (c # cs) =
     (if matchesAt name prevWord (c # cs) then
        (if name = [] then new @ c # replaceMatches name new (isWordChar c) cs
         else new @ replaceMatches name new (isWordChar (last name))
                      (drop (length name) (c # cs)))
      else c # replaceMatches name new (isWordChar c) cs)"
  by pat_completeness auto
termination
  by (relation "measure (\<lambda>(name, new, prevWord, rest). length rest)") auto

definition countWord :: "string \<Rightarrow> string \<Rightarrow> nat" where
  "countWord name body = countMatches name False body"

definition replaceWord :: "string \<Rightarrow> string \<Rightarrow> string \<Rightarrow> string" where
  "replaceWord name new body = replaceMatches name new False body"

definition failed :: "string \<Rightarrow> string \<Rightarrow> string \<Rightarrow> string \<Rightarrow> RenameResult" where
  "failed filePath old new msg =
     \<lparr> success = False, res_file = filePath, res_oldName = old, res_newName = new,
       referencesUpdated = 0, error = Some msg \<rparr>"

definition renamed :: "string \<Rightarrow> string \<Rightarrow> string \<Rightarrow> nat \<Rightarrow> RenameResult" where
  "renamed filePath old new n =
     \<lparr> success = True, res_file = filePath, res_oldName = old, res_newName = new,
       referencesUpdated = n, error = None \<rparr>"

definition fallbackPythonRename :: "string \<Rightarrow> string \<Rightarrow> string \<Rightarrow> World \<Rightarrow> RenameResult \<times> World" where
  "fallbackPythonRename filePath old new w =
     (case readFile filePath w of
        (Inl e, w1) \<Rightarrow> (failed filePath old new e, w1)
      | (Inr body, w1) \<Rightarrow>
          (let n = countWord old body in
           if n = 0 then (failed filePath old new ''Symbol not found'', w1)
           else
             (case writeFile filePath (replaceWord old new body) w1 of
                (Inl e, w2) \<Rightarrow> (failed filePath old new e, w2)
              | (Inr u, w2) \<Rightarrow> (renamed filePath old new n, w2))))"

definition fallbackGoRename :: "string \<Rightarrow> string \<Rightarrow> string \<Rightarrow> World \<Rightarrow> RenameResult \<times> World" where
  "fallbackGoRename filePath old new w =
     (case readFile filePath w of
        (Inl e, w1) \<Rightarrow> (failed filePath old new e, w1)
      | (Inr body, w1) \<Rightarrow>
          (let n = countWord old body in
           if n = 0 then (failed filePath old new ''Symbol not found'', w1)
           else
             (case writeFile filePath (replaceWord old new body) w1 of
                (Inl e, w2) \<Rightarrow> (failed filePath old new e, w2)
              | (Inr u, w2) \<Rightarrow> (renamed filePath old new n, w2))))"

text \<open>A name of letters, digits and underscores.\<close>

definition wordName :: "string \<Rightarrow> bool" where
  "wordName name = (name \<noteq> [] \<and> list_all isWordChar name)"

text \<open>The rest of a text behind a word: empty, or it starts with a non-word character.\<close>

definition endsWord :: "string \<Rightarrow> bool" where
  "endsWord r = (case r of [] \<Rightarrow> True | c # cs \<Rightarrow> \<not> isWordChar c)"

text \<open>A world that holds one file and injects no fault.\<close>

definition oneFile :: "string \<Rightarrow> string \<Rightarrow> World" where
  "oneFile path c = \<lparr> files = [path \<mapsto> c], faults = [], logged = [] \<rparr>"

text \<open>The next \<open>n\<close> file operations run without an injected fault.\<close>

definition noFaults :: "nat \<Rightarrow> World \<Rightarrow> bool" where
  "noFaults n w = list_all (\<lambda>f. f = None) (take n (faults w))"

text \<open>The file of Scenario C, and a file in which the new name already occurs.\<close>

definition scenarioC :: string where
  "scenarioC = ''const data = 1;\<newline>console.log(data);''"

definition profileFile :: string where
  "profileFile = ''data = load()\<newline>userProfile = parse(data)''"

section \<open>Rename orchestrator (rename/rename-orchestrator.ts)\<close>

text \<open>
  The tools outside this repository are parameters: the syntax-tree rename and check of
  ts-morph, the rope and gopls renames (the part of \<open>renamePythonSymbol\<close> and
  \<open>renameGoSymbol\<close> behind the availability test) and the external syntax and build
  checks. Each of them catches its own errors and returns a result, as the source
  functions do, so none of them throws.
\<close>

record Tools =
  ropeInstalled :: bool
  goplsInstalled :: bool
  renameTsSymbol :: "string \<Rightarrow> string \<Rightarrow> string \<Rightarrow> World \<Rightarrow> RenameResult \<times> World"
  ropeRename :: "string \<Rightarrow> string \<Rightarrow> string \<Rightarrow> string \<Rightarrow> World \<Rightarrow> RenameResult \<times> World"
  goplsRename :: "string \<Rightarrow> string \<Rightarrow> string \<Rightarrow> nat \<Rightarrow> string \<Rightarrow> World \<Rightarrow> RenameResult \<times> World"
  verifyTsCompilation :: "string \<Rightarrow> World \<Rightarrow> bool \<times> World"
  verifyPythonSyntax :: "string \<Rightarrow> World \<Rightarrow> bool \<times> World"
  verifyGoCompilation :: "string \<Rightarrow> string \<Rightarrow> World \<Rightarrow> bool \<times> World"

definition renamePythonSymbol ::
  "Tools \<Rightarrow> string \<Rightarrow> string \<Rightarrow> string \<Rightarrow> string \<Rightarrow> World \<Rightarrow> RenameResult \<times> World" where
  "renamePythonSymbol tools filePath old new projectRoot w =
     (if ropeInstalled tools then ropeRename tools filePath old new projectRoot w
      else fallbackPythonRename filePath old new w)"

definition renameGoSymbol ::
  "Tools \<Rightarrow> string \<Rightarrow> string \<Rightarrow> string \<Rightarrow> nat \<Rightarrow> string \<Rightarrow> World \<Rightarrow> RenameResult \<times> World" where
  "renameGoSymbol tools filePath old new lineNumber projectRoot w =
     (if goplsInstalled tools then goplsRename tools filePath old new lineNumber projectRoot w
      else fallbackGoRename filePath old new w)"

text \<open>The two \<open>switch\<close> statements of \<open>performSafeRename\<close>. Their \<open>default\<close> branch
  cannot be reached with a value of the language type.\<close>

definition dispatchRename ::
  "Tools \<Rightarrow> string \<Rightarrow> NamingSuggestion \<Rightarrow> LanguageType \<Rightarrow> nat \<Rightarrow> string
     \<Rightarrow> World \<Rightarrow> RenameResult \<times> World" where
  "dispatchRename tools filePath suggestion lang lineNumber projectRoot w =
     (case lang of
        typescript \<Rightarrow> renameTsSymbol tools filePath (oldName suggestion) (newName suggestion) w
      | javascript \<Rightarrow> renameTsSymbol tools filePath (oldName suggestion) (newName suggestion) w
      | python \<Rightarrow>
          renamePythonSymbol tools filePath (oldName suggestion) (newName suggestion)
            projectRoot w
      | go \<Rightarrow>
          renameGoSymbol tools filePath (oldName suggestion) (newName suggestion) lineNumber
            projectRoot w)"

definition dispatchVerify ::
  "Tools \<Rightarrow> string \<Rightarrow> LanguageType \<Rightarrow> string \<Rightarrow> World \<Rightarrow> bool \<times> World" where
  "dispatchVerify tools filePath lang projectRoot w =
     (case lang of
        typescript \<Rightarrow> verifyTsCompilation tools filePath w
      | javascript \<Rightarrow> verifyTsCompilation tools filePath w
      | python \<Rightarrow> verifyPythonSyntax tools filePath w
      | go \<Rightarrow> verifyGoCompilation tools filePath projectRoot w)"

text \<open>\<open>await fs.copyFile(backupPath, filePath); await fs.unlink(backupPath);\<close>\<close>

definition restoreBackup :: "string \<Rightarrow> string \<Rightarrow> unit io" where
  "restoreBackup backupPath filePath w =
     (case copyFile backupPath filePath w of
        (Inl e, w1) \<Rightarrow> (Inl e, w1)
      | (Inr u, w1) \<Rightarrow> unlink backupPath w1)"

definition restoreAndReturn :: "string \<Rightarrow> string \<Rightarrow> RenameResult \<Rightarrow> RenameResult io" where
  "restoreAndReturn backupPath filePath r w =
     (case restoreBackup backupPath filePath w of
        (Inl e, w1) \<Rightarrow> (Inl e, w1)
      | (Inr u, w1) \<Rightarrow> (Inr r, w1))"

text \<open>The body of the outer \<open>try\<close>: \<open>Inl\<close> is an exception on its way to the \<open>catch\<close>.\<close>

definition renameAndVerify ::
  "Tools \<Rightarrow> string \<Rightarrow> NamingSuggestion \<Rightarrow> LanguageType \<Rightarrow> nat \<Rightarrow> string \<Rightarrow> string
     \<Rightarrow> RenameResult io" where
  "renameAndVerify tools filePath suggestion lang lineNumber projectRoot backupPath w =
     (case dispatchRename tools filePath suggestion lang lineNumber projectRoot w of
        (result, w1) \<Rightarrow>
          if \<not> success result then restoreAndReturn backupPath filePath result w1
          else
            (case dispatchVerify tools filePath lang projectRoot w1 of
               (isValid, w2) \<Rightarrow>
                 if \<not> isValid then
                   restoreAndReturn backupPath filePath
                     (result\<lparr> success := False,
                              error := Some ''Verification failed after rename'' \<rparr>)
                     (logMsg WARN (''Verification failed for '' @ filePath @ '', rolling back'') w2)
                 else
                   (case unlink backupPath w2 of
                      (Inl e, w3) \<Rightarrow> (Inl e, w3)
                    | (Inr u, w3) \<Rightarrow> (Inr result, w3))))"

text \<open>The inner \<open>try\<close> of the \<open>catch\<close> block.\<close>

definition emergencyRestore :: "string \<Rightarrow> string \<Rightarrow> World \<Rightarrow> World" where
  "emergencyRestore backupPath filePath w =
     (case restoreBackup backupPath filePath w of
        (Inl e, w1) \<Rightarrow> logMsg ERROR (''Failed to restore backup: '' @ e) w1
      | (Inr u, w1) \<Rightarrow> w1)"

definition performSafeRename ::
  "Tools \<Rightarrow> string \<Rightarrow> NamingSuggestion \<Rightarrow> LanguageType \<Rightarrow> nat \<Rightarrow> string
     \<Rightarrow> World \<Rightarrow> RenameResult \<times> World" where
  "performSafeRename tools filePath suggestion lang lineNumber projectRoot w =
     (let backupPath = filePath @ ''.backup'' in
      case copyFile filePath backupPath w of
        (Inl e, w1) \<Rightarrow>
          (failed filePath (oldName suggestion) (newName suggestion) ''Failed to create backup'',
           logMsg ERROR (''Failed to create backup: '' @ e) w1)
      | (Inr u, w1) \<Rightarrow>
          (case renameAndVerify tools filePath suggestion lang lineNumber projectRoot
                  backupPath w1 of
             (Inr result, w2) \<Rightarrow> (result, w2)
           | (Inl e, w2) \<Rightarrow>
               (failed filePath (oldName suggestion) (newName suggestion) e,
                emergencyRestore backupPath filePath w2)))"

record RenameRequest =
  req_filePath :: string
  req_suggestion :: NamingSuggestion
  req_language :: LanguageType
  req_lineNumber :: nat

text \<open>The call in the body of the loop of \<open>batchRename\<close>.\<close>

definition performRequest ::
  "Tools \<Rightarrow> string \<Rightarrow> RenameRequest \<Rightarrow> World \<Rightarrow> RenameResult \<times> World" where
  "performRequest tools projectRoot rename w =
     performSafeRename tools (req_filePath rename) (req_suggestion rename)
       (req_language rename) (req_lineNumber rename) projectRoot w"

text \<open>The loop of \<open>batchRename\<close>, with the list \<open>results\<close> it appends to.\<close>

fun batchLoop ::
  "Tools \<Rightarrow> string \<Rightarrow> RenameResult list \<Rightarrow> RenameRequest list \<Rightarrow> World
     \<Rightarrow> RenameResult list \<times> World" where
  "batchLoop tools projectRoot results [] w = (results, w)"
| "batchLoop tools projectRoot results (rename # rest) w =
     (case performRequest tools projectRoot rename w of
        (result, w1) \<Rightarrow>
          if \<not> success result
          then (results @ [result], logMsg WARN ''Stopping batch rename due to failure'' w1)
          else batchLoop tools projectRoot (results @ [result]) rest w1)"

definition batchRename ::
  "Tools \<Rightarrow> RenameRequest list \<Rightarrow> string \<Rightarrow> World \<Rightarrow> RenameResult list \<times> World" where
  "batchRename tools renames projectRoot w = batchLoop tools projectRoot [] renames w"

text \<open>
  The batch contract in the words of the specification, for comparison: every request of
  a list is attempted in list order, without stopping.
\<close>

fun attemptAll ::
  "Tools \<Rightarrow> string \<Rightarrow> RenameRequest list \<Rightarrow> World \<Rightarrow> RenameResult list \<times> World" where
  "attemptAll tools projectRoot [] w = ([], w)"
| "attemptAll tools projectRoot (rename # rest) w =
     (case performRequest tools projectRoot rename w of
        (result, w1) \<Rightarrow>
          (case attemptAll tools projectRoot rest w1 of
             (results, w2) \<Rightarrow> (result # results, w2)))"

text \<open>A tool leaves the file at a path as it is.\<close>

definition keepsFile :: "(World \<Rightarrow> 'a \<times> World) \<Rightarrow> string \<Rightarrow> bool" where
  "keepsFile tool path = (\<forall>w. files (snd (tool w)) path = files w path)"

text \<open>
  Tools for the examples: no rope and no gopls, so Python and Go take the fallback
  rename; the syntax check accepts a file exactly when it holds no \<open>userProfile\<close>.
\<close>

definition rejectProfile :: "string \<Rightarrow> World \<Rightarrow> bool \<times> World" where
  "rejectProfile filePath w =
     (case files w filePath of
        None \<Rightarrow> (False, w)
      | Some body \<Rightarrow> (countWord ''userProfile'' body = 0, w))"

definition acceptAll :: "string \<Rightarrow> World \<Rightarrow> bool \<times> World" where
  "acceptAll filePath w = (True, w)"

definition exampleTools :: "(string \<Rightarrow> World \<Rightarrow> bool \<times> World) \<Rightarrow> Tools" where
  "exampleTools check =
     \<lparr> ropeInstalled = False, goplsInstalled = False,
       renameTsSymbol = (\<lambda>filePath old new w. (failed filePath old new ''Symbol not found'', w)),
       ropeRename = (\<lambda>filePath old new root w. (failed filePath old new ''no rope'', w)),
       goplsRename = (\<lambda>filePath old new n root w. (failed filePath old new ''no gopls'', w)),
       verifyTsCompilation = check,
       verifyPythonSyntax = check,
       verifyGoCompilation = (\<lambda>filePath root. check filePath) \<rparr>"

text \<open>A world in which the fourth file operation fails, and one in which the fourth and
  the fifth fail.\<close>

definition fourthFails :: World where
  "fourthFails =
     \<lparr> files = [''app.py'' \<mapsto> scenarioC],
       faults = [None, None, None, Some ''Error: EIO''], logged = [] \<rparr>"

definition fifthFailsToo :: World where
  "fifthFailsToo =
     \<lparr> files = [''app.py'' \<mapsto> scenarioC],
       faults = [None, None, None, Some ''Error: EIO'', Some ''Error: EIO''], logged = [] \<rparr>"

definition renameData :: "string \<Rightarrow> RenameRequest" where
  "renameData path =
     \<lparr> req_filePath = path, req_suggestion = scenarioB False, req_language = python,
       req_lineNumber = 1 \<rparr>"

section \<open>Suggestion schema (llm/schema.ts)\<close>

text \<open>The test of \<open>/^[a-zA-Z_$][a-zA-Z0-9_$]*$/\<close>.\<close>

definition isIdentStart :: "char \<Rightarrow> bool" where
  "isIdentStart c =
     (c \<in> set ''abcdefghijklmnopqrstuvwxyzABCDEFGHIJKLMNOPQRSTUVWXYZ_$'')"

definition isIdentPart :: "char \<Rightarrow> bool" where
  "isIdentPart c = (isIdentStart c \<or> isDigit c)"

definition validIdentifier :: "string \<Rightarrow> bool" where
  "validIdentifier name =
     (case name of
        [] \<Rightarrow> False
      | c # cs \<Rightarrow> isIdentStart c \<and> list_all isIdentPart cs)"

definition isValidSuggestion :: "NamingSuggestion \<Rightarrow> bool" where
  "isValidSuggestion suggestion =
     (if oldName suggestion = newName suggestion then False
      else if confidence suggestion < 0.3 then False
      else if rationale suggestion = [] \<or> length (rationale suggestion) < 10 then False
      else if \<not> validIdentifier (newName suggestion) then False
      else True)"

section \<open>Suggestion client (llm/client.ts, llm/config.ts)\<close>

record NamingContext =
  ctx_file :: string
  ctx_language :: LanguageType
  ctx_oldName :: string
  ctx_declaration :: string
  lineNumber :: nat

record CacheEntry =
  suggestion :: NamingSuggestion
  timestamp :: int
  ttl :: int

record CostStats =
  totalTokens :: nat
  estimatedCost :: real
  apiCalls :: nat
  cacheHitRate :: real

text \<open>
  The two module variables. The cache is a JavaScript \<open>Map\<close>: an association list with
  one entry for a key, in insertion order.
\<close>

record Client =
  responseCache :: "(string \<times> CacheEntry) list"
  costStats :: CostStats

definition CACHE_TTL :: int where
  "CACHE_TTL = 3600000"

definition initialStats :: CostStats where
  "initialStats = \<lparr> totalTokens = 0, estimatedCost = 0, apiCalls = 0, cacheHitRate = 0 \<rparr>"

definition initialClient :: Client where
  "initialClient = \<lparr> responseCache = [], costStats = initialStats \<rparr>"

text \<open>The configuration read from the environment; of its fields the model name and
  the retry count decide what the client does.\<close>

record LLMConfig =
  model :: string
  maxRetries :: int

definition defaultConfig :: LLMConfig where
  "defaultConfig = \<lparr> model = ''gpt-4o-mini'', maxRetries = 2 \<rparr>"

text \<open>Prices per million tokens: input and output. A model name without a row takes the
  row of \<open>gpt-4o-mini\<close>. (A model name that every JavaScript object has as a property,
  such as \<open>constructor\<close>, is not modelled.)\<close>

definition MODEL_PRICING :: "(string \<times> real \<times> real) list" where
  "MODEL_PRICING =
     [(''gpt-4o-mini'', 0.15, 0.60),
      (''gpt-4o'', 2.50, 10.00),
      (''gpt-4-turbo'', 10.00, 30.00),
      (''gpt-3.5-turbo'', 0.50, 1.50)]"

definition calculateCost :: "string \<Rightarrow> nat \<Rightarrow> nat \<Rightarrow> real" where
  "calculateCost m inputTokens outputTokens =
     (let pricing = (case map_of MODEL_PRICING m of
                       Some row \<Rightarrow> row
                     | None \<Rightarrow> (0.15, 0.60));
          inputCost = (real inputTokens / 1000000) * fst pricing;
          outputCost = (real outputTokens / 1000000) * snd pricing
      in inputCost + outputCost)"

text \<open>
  What lies outside the repository: the SHA-256 digest, the parser of the reply (JSON
  and schema check of \<open>parseNamingSuggestion\<close>), and for one call of \<open>askLLM\<close> the two
  readings of the clock and the reply of the service to each attempt.
\<close>

record Usage =
  prompt_tokens :: nat
  completion_tokens :: nat
  total_tokens :: nat

datatype ApiReply =
  RequestFailed string
  | Reply "string option" "Usage option"

record Service =
  digest :: "string \<Rightarrow> string"
  parseNamingSuggestion :: "string \<Rightarrow> NamingSuggestion option"

record Call =
  nowLookup :: int
  nowStore :: int
  replies :: "nat \<Rightarrow> ApiReply"

definition getCacheKey :: "Service \<Rightarrow> NamingContext \<Rightarrow> string" where
  "getCacheKey svc ctx =
     digest svc (ctx_file ctx @ '':'' @ ctx_oldName ctx @ '':'' @ ctx_declaration ctx)"

definition getCachedResponse :: "string \<Rightarrow> int \<Rightarrow> Client \<Rightarrow> NamingSuggestion option \<times> Client" where
  "getCachedResponse key now st =
     (case map_of (responseCache st) key of
        None \<Rightarrow> (None, st)
      | Some entry \<Rightarrow>
          if now - timestamp entry > ttl entry
          then (None, st\<lparr> responseCache := AList.delete key (responseCache st) \<rparr>)
          else (Some (suggestion entry), st))"

definition cacheResponse :: "string \<Rightarrow> NamingSuggestion \<Rightarrow> int \<Rightarrow> Client \<Rightarrow> Client" where
  "cacheResponse key s now st =
     st\<lparr> responseCache :=
           AList.update key \<lparr> suggestion = s, timestamp = now, ttl = CACHE_TTL \<rparr>
             (responseCache st) \<rparr>"

definition addUsage :: "string \<Rightarrow> Usage option \<Rightarrow> CostStats \<Rightarrow> CostStats" where
  "addUsage m usage stats =
     (case usage of
        None \<Rightarrow> stats
      | Some u \<Rightarrow>
          stats\<lparr> totalTokens := totalTokens stats + total_tokens u,
                 estimatedCost := estimatedCost stats
                   + calculateCost m (prompt_tokens u) (completion_tokens u) \<rparr>)"

text \<open>
  The body of the \<open>try\<close> in the retry loop, for the reply to one request: \<open>Inl\<close> is a
  thrown error (the loop goes on), \<open>Inr\<close> a \<open>return\<close> from \<open>askLLM\<close>.
\<close>

definition attempt ::
  "LLMConfig \<Rightarrow> Service \<Rightarrow> string \<Rightarrow> int \<Rightarrow> ApiReply \<Rightarrow> Client
     \<Rightarrow> string + (NamingSuggestion option \<times> Client)" where
  "attempt config svc cacheKey now reply st =
     (case reply of
        RequestFailed e \<Rightarrow> Inl e
      | Reply message usage \<Rightarrow>
          (case message of
             None \<Rightarrow> Inl ''Empty response from LLM''
           | Some msg \<Rightarrow>
               if msg = [] then Inl ''Empty response from LLM''
               else
                 (case parseNamingSuggestion svc msg of
                    None \<Rightarrow> Inl ''Invalid JSON response from LLM''
                  | Some s \<Rightarrow>
                      if \<not> isValidSuggestion s then Inr (None, st)
                      else
                        (let stats = addUsage (model config) usage (costStats st);
                             stats' = stats\<lparr> apiCalls := apiCalls stats + 1 \<rparr>
                         in Inr (Some s,
                                 cacheResponse cacheKey s now (st\<lparr> costStats := stats' \<rparr>))))))"

text \<open>
  The retry loop \<open>for (attempt = 0; attempt <= config.maxRetries; attempt++)\<close>, from the
  attempt number \<open>i\<close> on. The third component counts the requests sent to the service.
  The back-off sleeps between attempts only delay and are left out.
\<close>

function retryLoop ::
  "LLMConfig \<Rightarrow> Service \<Rightarrow> string \<Rightarrow> Call \<Rightarrow> nat \<Rightarrow> Client
     \<Rightarrow> NamingSuggestion option \<times> Client \<times> nat" where
  "retryLoop config svc cacheKey call i st =
     (if int i \<le> maxRetries config then
        (case attempt config svc cacheKey (nowStore call) (replies call i) st of
           Inr (result, st') \<Rightarrow> (result, st', 1)
         | Inl e \<Rightarrow>
             (case retryLoop config svc cacheKey call (i + 1) st of
                (result, st', requests) \<Rightarrow> (result, st', requests + 1)))
      else (None, st, 0))"
  by pat_completeness auto
termination
  by (relation "measure (\<lambda>(config, svc, cacheKey, call, i, st). nat (maxRetries config + 1 - int i))")
     auto

declare retryLoop.simps [simp del]

definition askLLM ::
  "LLMConfig \<Rightarrow> Service \<Rightarrow> NamingContext \<Rightarrow> Call \<Rightarrow> Client
     \<Rightarrow> NamingSuggestion option \<times> Client \<times> nat" where
  "askLLM config svc ctx call st =
     (let cacheKey = getCacheKey svc ctx in
      case getCachedResponse cacheKey (nowLookup call) st of
        (Some cached, st1) \<Rightarrow> (Some cached, st1, 0)
      | (None, st1) \<Rightarrow> retryLoop config svc cacheKey call 0 st1)"

definition getCostStats :: "Client \<Rightarrow> CostStats \<times> Client" where
  "getCostStats st =
     (let totalRequests = apiCalls (costStats st) + length (responseCache st);
          rate = (if totalRequests > 0
                  then real (length (responseCache st)) / real totalRequests else 0);
          stats = (costStats st)\<lparr> cacheHitRate := rate \<rparr>
      in (stats, st\<lparr> costStats := stats \<rparr>))"

definition resetCostStats :: "Client \<Rightarrow> Client" where
  "resetCostStats st = st\<lparr> costStats := initialStats \<rparr>"

definition clearCache :: "Client \<Rightarrow> Client" where
  "clearCache st = st\<lparr> responseCache := [] \<rparr>"

text \<open>The operations of the client other than the two resets.\<close>

datatype ClientOp =
  Ask NamingContext Call
  | Lookup string int
  | ReadStats

fun applyOp :: "LLMConfig \<Rightarrow> Service \<Rightarrow> Client \<Rightarrow> ClientOp \<Rightarrow> Client" where
  "applyOp config svc st (Ask ctx call) = fst (snd (askLLM config svc ctx call st))"
| "applyOp config svc st (Lookup key now) = snd (getCachedResponse key now st)"
| "applyOp config svc st ReadStats = snd (getCostStats st)"

section \<open>Pipeline driver (github/review.ts, github/autofix.ts)\<close>

text \<open>The loop of \<open>runReview\<close> that asks for a suggestion for every context.\<close>

fun collectReview ::
  "LLMConfig \<Rightarrow> Service \<Rightarrow> (NamingSuggestion \<times> NamingContext) list
     \<Rightarrow> (NamingContext \<times> Call) list \<Rightarrow> Client
     \<Rightarrow> (NamingSuggestion \<times> NamingContext) list \<times> Client" where
  "collectReview config svc suggestions [] st = (suggestions, st)"
| "collectReview config svc suggestions ((ctx, call) # rest) st =
     (case askLLM config svc ctx call st of
        (None, st', requests) \<Rightarrow> collectReview config svc suggestions rest st'
      | (Some s, st', requests) \<Rightarrow>
          if confidence s \<ge> 0.3
          then collectReview config svc (suggestions @ [(s, ctx)]) rest st'
          else collectReview config svc suggestions rest st')"

text \<open>The loop of \<open>runAutofix\<close> with its two lists.\<close>

fun collectAutofix ::
  "LLMConfig \<Rightarrow> Service \<Rightarrow> (NamingSuggestion \<times> NamingContext) list
     \<Rightarrow> (NamingSuggestion \<times> NamingContext) list
     \<Rightarrow> (NamingContext \<times> Call) list \<Rightarrow> Client
     \<Rightarrow> (NamingSuggestion \<times> NamingContext) list \<times> (NamingSuggestion \<times> NamingContext) list
         \<times> Client" where
  "collectAutofix config svc allSuggestions autofixSuggestions [] st =
     (allSuggestions, autofixSuggestions, st)"
| "collectAutofix config svc allSuggestions autofixSuggestions ((ctx, call) # rest) st =
     (case askLLM config svc ctx call st of
        (None, st', requests) \<Rightarrow>
          collectAutofix config svc allSuggestions autofixSuggestions rest st'
      | (Some s, st', requests) \<Rightarrow>
          if confidence s \<ge> 0.3 then
            collectAutofix config svc (allSuggestions @ [(s, ctx)])
              (if shouldAutoRename s then autofixSuggestions @ [(s, ctx)]
               else autofixSuggestions)
              rest st'
          else collectAutofix config svc allSuggestions autofixSuggestions rest st')"

text \<open>The statistics after a successful request: one more call, no counter smaller.\<close>

definition grown :: "CostStats \<Rightarrow> CostStats \<Rightarrow> bool" where
  "grown old new =
     (apiCalls new = apiCalls old + 1 \<and> totalTokens old \<le> totalTokens new
      \<and> estimatedCost old \<le> estimatedCost new \<and> cacheHitRate new = cacheHitRate old)"

text \<open>No counter is smaller in the new statistics.\<close>

definition countersGrow :: "CostStats \<Rightarrow> CostStats \<Rightarrow> bool" where
  "countersGrow old new =
     (totalTokens old \<le> totalTokens new \<and> estimatedCost old \<le> estimatedCost new
      \<and> apiCalls old \<le> apiCalls new)"

text \<open>What the two lists of \<open>runAutofix\<close> satisfy while the loop runs.\<close>

definition collected :: "(NamingSuggestion \<times> NamingContext) list \<Rightarrow> (NamingSuggestion \<times> NamingContext) list \<Rightarrow> bool" where
  "collected allS autoS =
     ((\<forall>(s, c) \<in> set allS. 0.3 \<le> confidence s)
      \<and> (\<forall>(s, c) \<in> set autoS. (s, c) \<in> set allS \<and> shouldAutoRename s))"

text \<open>
  For the examples: a service whose parser reads the reply \<open>A\<close> as the suggestion of
  Scenario B, \<open>B\<close> as a suggestion that renames \<open>data\<close> to \<open>data\<close>, and \<open>C\<close> as a
  suggestion of confidence 0.2; the digest leaves its argument as it is.
\<close>

definition exampleService :: Service where
  "exampleService =
     \<lparr> digest = (\<lambda>d. d),
       parseNamingSuggestion = (\<lambda>msg.
         if msg = ''A'' then Some (scenarioB False)
         else if msg = ''B'' then Some ((scenarioB False)\<lparr> newName := ''data'' \<rparr>)
         else if msg = ''C'' then Some ((scenarioB False)\<lparr> confidence := 0.2 \<rparr>)
         else None) \<rparr>"

definition exampleContext :: NamingContext where
  "exampleContext =
     \<lparr> ctx_file = ''app.py'', ctx_language = python, ctx_oldName = ''data'',
       ctx_declaration = ''data = load()'', lineNumber = 1 \<rparr>"

definition exampleUsage :: Usage where
  "exampleUsage = \<lparr> prompt_tokens = 500, completion_tokens = 300, total_tokens = 800 \<rparr>"

text \<open>A call at time \<open>t\<close> whose every request gets the reply text \<open>msg\<close>, and one whose
  first request fails and whose later ones get \<open>msg\<close>.\<close>

definition callAt :: "int \<Rightarrow> string \<Rightarrow> Call" where
  "callAt t msg =
     \<lparr> nowLookup = t, nowStore = t + 1200,
       replies = (\<lambda>i. Reply (Some msg) (Some exampleUsage)) \<rparr>"

definition flakyCallAt :: "int \<Rightarrow> string \<Rightarrow> Call" where
  "flakyCallAt t msg =
     \<lparr> nowLookup = t, nowStore = t + 1200,
       replies = (\<lambda>i. if i = 0 then RequestFailed ''Error: timeout''
                       else Reply (Some msg) (Some exampleUsage)) \<rparr>"

text \<open>
  A client whose cache already holds a suggestion of confidence 0.2 for the example
  context, and a second context for the name \<open>tmp\<close>.
\<close>

definition staleClient :: Client where
  "staleClient =
     \<lparr> responseCache =
         [(''app.py:data:data = load()'',
           \<lparr> suggestion = (scenarioB False)\<lparr> confidence := 0.2 \<rparr>, timestamp = 0,
             ttl = CACHE_TTL \<rparr>)],
       costStats = initialStats \<rparr>"

definition tmpContext :: NamingContext where
  "tmpContext = exampleContext\<lparr> ctx_oldName := ''tmp'', ctx_declaration := ''tmp = data'' \<rparr>"

text \<open>The client after one request for the example context, stored at time 1200.\<close>

definition cachedClient :: Client where
  "cachedClient =
     \<lparr> responseCache =
         [(''app.py:data:data = load()'',
           \<lparr> suggestion = scenarioB False, timestamp = 1200, ttl = 3600000 \<rparr>)],
       costStats = \<lparr> totalTokens = 800, estimatedCost = 51 / 200000, apiCalls = 1,
                     cacheHitRate = 0 \<rparr> \<rparr>"

section \<open>Theorems\<close>

text \<open>
  Claim C3. The safety gate returns true exactly when the confidence is at least 0.85,
  the suggestion is flagged safe to autofix and it is not flagged as API surface. Setting
  the API-surface flag makes the gate return false whatever the confidence is. Scenario B:
  confidence 0.95, autofix allowed, not API surface gives true; the same suggestion
  flagged as API surface gives false.
\<close>

theorem shouldAutoRename_rule:
  "(shouldAutoRename s \<longleftrightarrow>
      confidence s \<ge> 0.85 \<and> shouldAutofix (safety s) \<and> \<not> isApiSurface (safety s))
   \<and> (isApiSurface (safety s) \<longrightarrow> \<not> shouldAutoRename s)
   \<and> shouldAutoRename (scenarioB False)
   \<and> \<not> shouldAutoRename (scenarioB True)"
  by (auto simp: shouldAutoRename_def scenarioB_def)

theorem shouldAutoRename_rule_witness:
  "isApiSurface (safety (scenarioB True)) \<and> \<not> shouldAutoRename (scenarioB True)
   \<and> shouldAutoRename (scenarioB False)
   \<and> confidence (scenarioB False) \<ge> 0.85"
  using shouldAutoRename_rule [of "scenarioB True"] shouldAutoRename_rule [of "scenarioB False"]
  by (simp add: scenarioB_def)


subsection \<open>Diff interpreter\<close>







lemma foldl_parseLine_no_header:
  "\<not> inHunk w \<Longrightarrow> \<not> list_ex isHunkHeader ls \<Longrightarrow> foldl parseLine w ls = w"
proof (induction ls arbitrary: w)
  case Nil
  show ?case by simp
next
  case (Cons l ls)
  from Cons.prems have "parseLine w l = w"
    by (auto simp: parseLine_def isHunkHeader_def split: option.splits)
  with Cons show ?case by simp
qed

lemma walkDiff_no_header:
  "\<not> list_ex isHunkHeader (splitOn newline d) \<Longrightarrow> walkDiff d = initialWalk"
  unfolding walkDiff_def by (rule foldl_parseLine_no_header) (simp_all add: initialWalk_def)

lemma detectLanguage_None_iff:
  "detectLanguage p = None \<longleftrightarrow>
     fileExtension p \<notin> set [''ts'', ''tsx'', ''js'', ''jsx'', ''py'', ''go'']"
  by (simp add: detectLanguage_def Let_def)

text \<open>
  Claim C10. The extension of a path is the text after its last dot (the whole path when
  there is none), compared without regard to case. \<open>parseDiff\<close> is a total function: it
  returns none exactly when \<open>detectLanguage\<close> does, which is exactly when the extension is
  not one of ts, tsx, js, jsx, py, go; otherwise it returns a change object for the path
  and the detected language, whatever the diff text is. The empty text, and any text
  without a hunk header line, gives empty addition, deletion and modification lists.
\<close>

theorem parseDiff_total:
  "(parseDiff d p = None \<longleftrightarrow> detectLanguage p = None)
   \<and> (detectLanguage p = None \<longleftrightarrow>
        fileExtension p \<notin> set [''ts'', ''tsx'', ''js'', ''jsx'', ''py'', ''go''])
   \<and> (detectLanguage p = Some lang \<longrightarrow>
        (\<exists>a dl m. parseDiff d p =
           Some \<lparr> diff_file = p, language = lang, additions = a, deletions = dl,
                  modifications = m \<rparr>))
   \<and> (detectLanguage p = Some lang \<longrightarrow>
        parseDiff [] p =
          Some \<lparr> diff_file = p, language = lang, additions = [], deletions = [],
                 modifications = [] \<rparr>)
   \<and> (detectLanguage p = Some lang \<and> \<not> list_ex isHunkHeader (splitOn newline d) \<longrightarrow>
        parseDiff d p =
          Some \<lparr> diff_file = p, language = lang, additions = [], deletions = [],
                 modifications = [] \<rparr>)"
proof -
  have none: "parseDiff d p = None \<longleftrightarrow> detectLanguage p = None"
    by (simp add: parseDiff_def Let_def split: option.splits)
  have some: "detectLanguage p = Some lang \<longrightarrow>
        (\<exists>a dl m. parseDiff d p =
           Some \<lparr> diff_file = p, language = lang, additions = a, deletions = dl,
                  modifications = m \<rparr>)"
    by (simp add: parseDiff_def Let_def)
  have empty: "detectLanguage p = Some lang \<longrightarrow>
        parseDiff [] p =
          Some \<lparr> diff_file = p, language = lang, additions = [], deletions = [],
                 modifications = [] \<rparr>"
    by (simp add: parseDiff_def walkDiff_def parseLine_def startsWith_def initialWalk_def)
  have malformed: "detectLanguage p = Some lang \<and> \<not> list_ex isHunkHeader (splitOn newline d) \<longrightarrow>
        parseDiff d p =
          Some \<lparr> diff_file = p, language = lang, additions = [], deletions = [],
                 modifications = [] \<rparr>"
    by (simp add: parseDiff_def walkDiff_no_header initialWalk_def)
  from none detectLanguage_None_iff some empty malformed show ?thesis by blast
qed

theorem parseDiff_total_witness:
  "detectLanguage ''main.PY'' = Some python
   \<and> \<not> list_ex isHunkHeader (splitOn newline ''@@ garbage\<newline>+x = 1'')
   \<and> parseDiff ''@@ garbage\<newline>+x = 1'' ''main.PY'' =
       Some \<lparr> diff_file = ''main.PY'', language = python, additions = [], deletions = [],
              modifications = [] \<rparr>
   \<and> fileExtension ''README.md'' \<notin> set [''ts'', ''tsx'', ''js'', ''jsx'', ''py'', ''go'']
   \<and> parseDiff scenarioA ''README.md'' = None"
proof -
  have lang: "detectLanguage ''main.PY'' = Some python"
    by (simp add: detectLanguage_def fileExtension_def toLowerCase_def toLowerChar_def)
  have garbage: "\<not> list_ex isHunkHeader (splitOn newline ''@@ garbage\<newline>+x = 1'')"
    by (simp add: newline_def isHunkHeader_def startsWith_def isDigit_def)
  have ext: "fileExtension ''README.md'' \<notin> set [''ts'', ''tsx'', ''js'', ''jsx'', ''py'', ''go'']"
    by (simp add: fileExtension_def toLowerCase_def toLowerChar_def)
  from lang garbage parseDiff_total [of "''@@ garbage\<newline>+x = 1''" "''main.PY''" python]
  have a: "parseDiff ''@@ garbage\<newline>+x = 1'' ''main.PY'' =
       Some \<lparr> diff_file = ''main.PY'', language = python, additions = [], deletions = [],
              modifications = [] \<rparr>"
    by blast
  from ext parseDiff_total [of scenarioA "''README.md''" python]
  have b: "parseDiff scenarioA ''README.md'' = None" by metis
  from lang garbage a ext b show ?thesis by blast
qed


subsection \<open>Fallback rename\<close>

lemmas fallback_defs =
  fallbackPythonRename_def fallbackGoRename_def readFile_def writeFile_def nextFault_def
  oneFile_def renamed_def failed_def countWord_def replaceWord_def matchesAt_def
  wordBoundary_def startsWith_def isWordChar_def

lemma readFile_ok: "noFaults (Suc n) w \<Longrightarrow> files w p = Some c \<Longrightarrow>
   \<exists>w1. readFile p w = (Inr c, w1) \<and> files w1 = files w \<and> noFaults n w1"
  by (cases "faults w") (auto simp: readFile_def nextFault_def noFaults_def)

lemma writeFile_ok: "noFaults (Suc n) w \<Longrightarrow>
   \<exists>w1. writeFile p c w = (Inr (), w1) \<and> files w1 = (files w)(p \<mapsto> c) \<and> noFaults n w1"
  by (cases "faults w") (auto simp: writeFile_def nextFault_def noFaults_def)

lemma fallbackPythonRename_found:
  assumes "files w fp = Some body" "noFaults 2 w" "countWord old body \<noteq> 0"
  shows "fst (fallbackPythonRename fp old new w) = renamed fp old new (countWord old body)
     \<and> files (snd (fallbackPythonRename fp old new w)) = (files w)(fp \<mapsto> replaceWord old new body)"
proof -
  from assms have "noFaults (Suc 1) w" by (simp add: numeral_2_eq_2)
  from readFile_ok [OF this assms(1)] obtain w1 where
    w1: "readFile fp w = (Inr body, w1)" "files w1 = files w" "noFaults 1 w1" by blast
  from writeFile_ok [of 0 w1 fp "replaceWord old new body"] w1 obtain w2 where
    w2: "writeFile fp (replaceWord old new body) w1 = (Inr (), w2)"
        "files w2 = (files w1)(fp \<mapsto> replaceWord old new body)" by auto
  with w1 assms(3) show ?thesis by (simp add: fallbackPythonRename_def Let_def)
qed

lemma fallbackPythonRename_missing:
  assumes "files w fp = Some body" "noFaults 2 w" "countWord old body = 0"
  shows "fst (fallbackPythonRename fp old new w) = failed fp old new ''Symbol not found''
     \<and> files (snd (fallbackPythonRename fp old new w)) = files w"
proof -
  from assms have "noFaults (Suc 1) w" by (simp add: numeral_2_eq_2)
  from readFile_ok [OF this assms(1)] obtain w1 where
    w1: "readFile fp w = (Inr body, w1)" "files w1 = files w" "noFaults 1 w1" by blast
  with assms(3) show ?thesis by (simp add: fallbackPythonRename_def Let_def)
qed

lemma matchesAt_inside [simp]: "isWordChar c \<Longrightarrow> \<not> matchesAt name True (c # cs)"
  by (simp add: matchesAt_def wordBoundary_def)

lemma matchesAt_nonword [simp]:
  "wordName name \<Longrightarrow> \<not> isWordChar c \<Longrightarrow> \<not> matchesAt name prev (c # cs)"
  by (cases name) (auto simp: matchesAt_def startsWith_def wordName_def)

lemma matchesAt_Nil [simp]: "wordName name \<Longrightarrow> \<not> matchesAt name prev []"
  by (cases name) (auto simp: matchesAt_def startsWith_def wordName_def)

lemma matchesAt_word:
  assumes n: "wordName name" and u: "u \<noteq> []" "list_all isWordChar u" and r: "endsWord r"
  shows "matchesAt name False (u @ r) \<longleftrightarrow> name = u"
proof
  assume "name = u"
  with n u r show "matchesAt name False (u @ r)"
    by (cases u; cases r) (auto simp: matchesAt_def wordBoundary_def startsWith_def endsWord_def
        wordName_def list_all_iff)
next
  assume m: "matchesAt name False (u @ r)"
  from n have ne: "name \<noteq> []" and nw: "list_all isWordChar name" by (simp_all add: wordName_def)
  from m have pre: "take (length name) (u @ r) = name"
    and post: "endsWord (drop (length name) (u @ r))"
    using ne nw
    by (auto simp: matchesAt_def startsWith_def wordBoundary_def endsWord_def list_all_iff
        split: list.splits)
  have "\<not> length name < length u"
  proof
    assume l: "length name < length u"
    then have "drop (length name) (u @ r) = (u ! length name) # drop (Suc (length name)) u @ r"
      by (simp add: Cons_nth_drop_Suc)
    moreover from l u have "isWordChar (u ! length name)" by (simp add: list_all_length)
    ultimately show False using post by (simp add: endsWord_def)
  qed
  moreover have "\<not> length u < length name"
  proof
    assume l: "length u < length name"
    from arg_cong [OF pre, of length] have "length name \<le> length (u @ r)"
      by simp
    with l obtain c cs where rc: "r = c # cs" by (cases r) auto
    from pre l have "name ! length u = (u @ r) ! length u"
      by (metis nth_take)
    with rc have "name ! length u = c" by simp
    with l nw have "isWordChar c" by (auto simp: list_all_length)
    with r rc show False by (simp add: endsWord_def)
  qed
  ultimately have "length name = length u" by simp
  with pre show "name = u" by simp
qed

lemma countMatches_inside:
  "list_all isWordChar v \<Longrightarrow> countMatches name True (v @ r) = countMatches name True r"
  by (induction v) simp_all

lemma replaceMatches_inside:
  "list_all isWordChar v \<Longrightarrow> replaceMatches name new True (v @ r) = v @ replaceMatches name new True r"
  by (induction v) simp_all

lemma countMatches_word:
  assumes n: "wordName name" and u: "u \<noteq> []" "list_all isWordChar u" and r: "endsWord r"
  shows "countMatches name False (u @ r) = (if name = u then 1 else 0) + countMatches name True r"
proof -
  from u obtain c v where cv: "u = c # v" "isWordChar c" "list_all isWordChar v" by (cases u) auto
  from n have ne: "name \<noteq> []" "isWordChar (last name)"
    by (auto simp: wordName_def list_all_iff)
  show ?thesis
  proof (cases "name = u")
    case True
    with matchesAt_word [OF n u r] have "matchesAt name False (c # v @ r)" by (simp add: cv)
    with True ne cv show ?thesis by simp
  next
    case False
    with matchesAt_word [OF n u r] have "\<not> matchesAt name False (c # v @ r)" by (simp add: cv)
    with False cv countMatches_inside [OF cv(3)] show ?thesis by simp
  qed
qed

lemma replaceMatches_word:
  assumes n: "wordName name" and u: "u \<noteq> []" "list_all isWordChar u" and r: "endsWord r"
  shows "replaceMatches name new False (u @ r) =
           (if name = u then new else u) @ replaceMatches name new True r"
proof -
  from u obtain c v where cv: "u = c # v" "isWordChar c" "list_all isWordChar v" by (cases u) auto
  from n have ne: "name \<noteq> []" "isWordChar (last name)"
    by (auto simp: wordName_def list_all_iff)
  show ?thesis
  proof (cases "name = u")
    case True
    with matchesAt_word [OF n u r] have "matchesAt name False (c # v @ r)" by (simp add: cv)
    with True ne cv show ?thesis by simp
  next
    case False
    with matchesAt_word [OF n u r] have "\<not> matchesAt name False (c # v @ r)" by (simp add: cv)
    with False cv replaceMatches_inside [OF cv(3)] show ?thesis by simp
  qed
qed

lemma endsWord_replaceMatches:
  "wordName name \<Longrightarrow> endsWord r \<Longrightarrow> endsWord (replaceMatches name new prev r)"
  by (cases r) (simp_all add: endsWord_def)

lemma word_split:
  "isWordChar c \<Longrightarrow>
     \<exists>u r. c # cs = u @ r \<and> u \<noteq> [] \<and> list_all isWordChar u \<and> endsWord r \<and> length r < length (c # cs)"
proof (intro exI conjI)
  show "c # cs = takeWhile isWordChar (c # cs) @ dropWhile isWordChar (c # cs)" by simp
  show "isWordChar c \<Longrightarrow> takeWhile isWordChar (c # cs) \<noteq> []" by simp
  show "list_all isWordChar (takeWhile isWordChar (c # cs))"
    by (simp add: list_all_iff) (meson set_takeWhileD)
  show "endsWord (dropWhile isWordChar (c # cs))"
  proof (cases "dropWhile isWordChar (c # cs)")
    case Nil
    then show ?thesis by (simp only: endsWord_def list.case)
  next
    case (Cons a as)
    with hd_dropWhile [of isWordChar "c # cs"] have "\<not> isWordChar a"
      by (metis list.distinct(1) list.sel(1))
    with Cons show ?thesis by (simp add: endsWord_def del: dropWhile.simps)
  qed
  show "isWordChar c \<Longrightarrow> length (dropWhile isWordChar (c # cs)) < length (c # cs)"
    by (simp add: length_dropWhile_le less_Suc_eq_le)
qed

lemma countMatches_after_replace:
  assumes old: "wordName old" and new: "wordName new" and neq: "old \<noteq> new"
  shows "countMatches new prev (replaceMatches old new prev body) =
           countMatches old prev body + countMatches new prev body"
proof (induction body arbitrary: prev rule: length_induct)
  case (1 body)
  show ?case
  proof (cases body)
    case Nil
    with old new show ?thesis by simp
  next
    case (Cons c cs)
    show ?thesis
    proof (cases "isWordChar c")
      case False
      with old new Cons "1.IH" show ?thesis by simp
    next
      case True
      show ?thesis
      proof (cases prev)
        case inside: True
        with True Cons "1.IH" show ?thesis by simp
      next
        case start: False
        from word_split [OF True, of cs] obtain u r where
          split: "c # cs = u @ r" "u \<noteq> []" "list_all isWordChar u" "endsWord r"
            "length r < length (c # cs)"
          by blast
        let ?u' = "if old = u then new else u"
        let ?R = "replaceMatches old new True r"
        from new split have u': "?u' \<noteq> []" "list_all isWordChar ?u'"
          by (auto simp: wordName_def)
        have R: "endsWord ?R" using old split(4) by (rule endsWord_replaceMatches)
        from split(5) Cons "1.IH" have IH: "countMatches new True ?R =
            countMatches old True r + countMatches new True r"
          by simp
        have "countMatches new False (replaceMatches old new False (u @ r)) =
                countMatches new False (?u' @ ?R)"
          by (simp only: replaceMatches_word [OF old split(2,3,4)])
        also have "\<dots> = (if new = ?u' then 1 else 0) + countMatches new True ?R"
          by (rule countMatches_word [OF new u' R])
        also have "\<dots> = countMatches old False (u @ r) + countMatches new False (u @ r)"
          using neq IH
          by (auto simp: countMatches_word [OF old split(2,3,4)] countMatches_word [OF new split(2,3,4)])
        finally show ?thesis using Cons start split(1) by simp
      qed
    qed
  qed
qed

lemma countWord_after_replace:
  "wordName old \<Longrightarrow> wordName new \<Longrightarrow> old \<noteq> new \<Longrightarrow>
     countWord new (replaceWord old new body) = countWord old body + countWord new body"
  by (simp add: countWord_def replaceWord_def countMatches_after_replace)

text \<open>
  Claim C5, as the code has it. With the file readable and writable, and the names made
  of letters, digits and underscores: the fallback rename (the Python one and the Go one
  alike) fails with \<open>Symbol not found\<close>, leaving the file as it is, exactly when the old
  name has no whole-word occurrence; otherwise it succeeds, writes the text with every
  whole-word occurrence replaced, and \<open>referencesUpdated\<close> is the number of whole-word
  occurrences of the old name before the substitution. The new name then occurs that
  many times more than it did before. Scenario C: two occurrences of \<open>data\<close> give
  \<open>referencesUpdated = 2\<close> and the renamed text.
\<close>

theorem fallbackRename_counts_old_name:
  assumes "files w fp = Some body" and "noFaults 2 w" and "wordName old" and "wordName new"
  shows "(countWord old body = 0 \<longrightarrow>
            fst (fallbackPythonRename fp old new w) = failed fp old new ''Symbol not found''
            \<and> files (snd (fallbackPythonRename fp old new w)) = files w)
       \<and> (countWord old body \<noteq> 0 \<longrightarrow>
            fst (fallbackPythonRename fp old new w) = renamed fp old new (countWord old body)
            \<and> files (snd (fallbackPythonRename fp old new w)) =
                (files w)(fp \<mapsto> replaceWord old new body))
       \<and> (error (fst (fallbackPythonRename fp old new w)) = Some ''Symbol not found''
            \<longleftrightarrow> countWord old body = 0)
       \<and> fallbackGoRename fp old new w = fallbackPythonRename fp old new w
       \<and> (old \<noteq> new \<longrightarrow>
            countWord new (replaceWord old new body) = countWord old body + countWord new body)
       \<and> fallbackPythonRename ''app.py'' ''data'' ''userProfile'' (oneFile ''app.py'' scenarioC) =
           (renamed ''app.py'' ''data'' ''userProfile'' 2,
            oneFile ''app.py'' ''const userProfile = 1;\<newline>console.log(userProfile);'')"
proof -
  have after: "old \<noteq> new \<longrightarrow>
            countWord new (replaceWord old new body) = countWord old body + countWord new body"
    using countWord_after_replace [OF assms(3,4)] by blast
  have missing: "countWord old body = 0 \<longrightarrow>
            fst (fallbackPythonRename fp old new w) = failed fp old new ''Symbol not found''
            \<and> files (snd (fallbackPythonRename fp old new w)) = files w"
    using fallbackPythonRename_missing [OF assms(1,2)] by blast
  have found: "countWord old body \<noteq> 0 \<longrightarrow>
            fst (fallbackPythonRename fp old new w) = renamed fp old new (countWord old body)
            \<and> files (snd (fallbackPythonRename fp old new w)) =
                (files w)(fp \<mapsto> replaceWord old new body)"
    using fallbackPythonRename_found [OF assms(1,2)] by blast
  have exactly: "error (fst (fallbackPythonRename fp old new w)) = Some ''Symbol not found''
            \<longleftrightarrow> countWord old body = 0"
    using missing found by (cases "countWord old body = 0") (simp_all add: failed_def renamed_def)
  have same: "fallbackGoRename fp old new w = fallbackPythonRename fp old new w"
    by (simp add: fallbackGoRename_def fallbackPythonRename_def)
  have scenario: "fallbackPythonRename ''app.py'' ''data'' ''userProfile'' (oneFile ''app.py'' scenarioC) =
           (renamed ''app.py'' ''data'' ''userProfile'' 2,
            oneFile ''app.py'' ''const userProfile = 1;\<newline>console.log(userProfile);'')"
    by (simp add: fallback_defs scenarioC_def)
  from missing found exactly same after scenario show ?thesis by blast
qed

theorem fallbackRename_counts_old_name_witness:
  "countWord ''data'' scenarioC = 2
   \<and> fst (fallbackGoRename ''main.go'' ''data'' ''userProfile'' (oneFile ''main.go'' scenarioC)) =
       renamed ''main.go'' ''data'' ''userProfile'' 2
   \<and> files (snd (fallbackGoRename ''main.go'' ''data'' ''userProfile'' (oneFile ''main.go'' scenarioC)))
       ''main.go'' = Some ''const userProfile = 1;\<newline>console.log(userProfile);''
   \<and> countWord ''data'' ''const x = 1;'' = 0
   \<and> error (fst (fallbackPythonRename ''app.py'' ''data'' ''userProfile''
               (oneFile ''app.py'' ''const x = 1;''))) = Some ''Symbol not found''"
proof -
  have f: "files (oneFile ''main.go'' scenarioC) ''main.go'' = Some scenarioC"
    and g: "files (oneFile ''app.py'' ''const x = 1;'') ''app.py'' = Some ''const x = 1;''"
    and nf: "noFaults 2 (oneFile ''main.go'' scenarioC)"
            "noFaults 2 (oneFile ''app.py'' ''const x = 1;'')"
    and names: "wordName ''data''" "wordName ''userProfile''"
    by (simp_all add: oneFile_def noFaults_def wordName_def isWordChar_def)
  have two: "countWord ''data'' scenarioC = 2"
    and none: "countWord ''data'' ''const x = 1;'' = 0"
    and new: "replaceWord ''data'' ''userProfile'' scenarioC =
                ''const userProfile = 1;\<newline>console.log(userProfile);''"
    by (simp_all add: fallback_defs scenarioC_def)
  from fallbackRename_counts_old_name [OF f nf(1) names] two new
  have a: "fst (fallbackGoRename ''main.go'' ''data'' ''userProfile'' (oneFile ''main.go'' scenarioC)) =
       renamed ''main.go'' ''data'' ''userProfile'' 2"
    and b: "files (snd (fallbackGoRename ''main.go'' ''data'' ''userProfile''
              (oneFile ''main.go'' scenarioC))) ''main.go'' =
            Some ''const userProfile = 1;\<newline>console.log(userProfile);''"
    by simp_all
  from fallbackRename_counts_old_name [OF g nf(2) names] none
  have c: "error (fst (fallbackPythonRename ''app.py'' ''data'' ''userProfile''
               (oneFile ''app.py'' ''const x = 1;''))) = Some ''Symbol not found''"
    by (simp add: failed_def)
  from two a b none c show ?thesis by blast
qed

text \<open>
  The claim as written fails where the new name already occurs in the file: two
  occurrences of \<open>data\<close> are replaced and \<open>referencesUpdated\<close> is 2, while the file then
  holds three occurrences of \<open>userProfile\<close>.
\<close>

theorem fallbackRename_new_name_counterexample:
  "referencesUpdated (fst (fallbackPythonRename ''app.py'' ''data'' ''userProfile''
      (oneFile ''app.py'' profileFile))) = 2
   \<and> map_option (countWord ''userProfile'')
        (files (snd (fallbackPythonRename ''app.py'' ''data'' ''userProfile''
           (oneFile ''app.py'' profileFile))) ''app.py'') = Some 3"
  by (simp add: fallback_defs profileFile_def)

subsection \<open>Rename orchestrator\<close>

lemma copyFile_cases:
  "copyFile src dst w = (r, w') \<Longrightarrow>
     (r = Inr () \<and> (\<exists>c. files w src = Some c \<and> files w' = (files w)(dst \<mapsto> c)))
     \<or> ((\<exists>e. r = Inl e) \<and> files w' = files w)"
  by (auto simp: copyFile_def nextFault_def split: list.splits option.splits)

lemma unlink_cases:
  "unlink path w = (r, w') \<Longrightarrow>
     (r = Inr () \<and> files w' = (files w)(path := None))
     \<or> ((\<exists>e. r = Inl e) \<and> files w' = files w)"
  by (auto simp: unlink_def nextFault_def split: list.splits option.splits)

lemma restoreBackup_Inr:
  "restoreBackup bk fp w = (Inr u, w') \<Longrightarrow> bk \<noteq> fp \<Longrightarrow>
     files w' fp = files w bk \<and> files w bk \<noteq> None \<and> files w' bk = None"
  by (auto simp: restoreBackup_def split: prod.splits sum.splits dest!: copyFile_cases unlink_cases)

lemma restoreBackup_Inl:
  "restoreBackup bk fp w = (Inl e, w') \<Longrightarrow> bk \<noteq> fp \<Longrightarrow> files w' bk = files w bk"
  by (auto simp: restoreBackup_def split: prod.splits sum.splits dest!: copyFile_cases unlink_cases)

lemma emergencyRestore_files:
  assumes "bk \<noteq> fp"
  shows "files (emergencyRestore bk fp w) fp = files w bk
         \<or> (\<exists>e w1. copyFile bk fp w = (Inl e, w1))"
proof (cases "copyFile bk fp w")
  case (Pair r w1)
  show ?thesis
  proof (cases r)
    case (Inl e)
    with Pair show ?thesis by simp
  next
    case (Inr u)
    with Pair obtain c where c: "files w bk = Some c" "files w1 = (files w)(fp \<mapsto> c)"
      by (auto dest: copyFile_cases)
    obtain t w2 where t: "unlink bk w1 = (t, w2)" by (cases "unlink bk w1")
    with assms c have "files w2 fp = Some c" by (auto dest: unlink_cases)
    with Pair Inr t c show ?thesis
      by (cases t) (simp_all add: emergencyRestore_def restoreBackup_def logMsg_def)
  qed
qed

lemma copyFile_noFault:
  "noFaults 1 w \<Longrightarrow> files w src = Some c \<Longrightarrow> \<exists>w1. copyFile src dst w = (Inr (), w1)"
  by (cases "faults w") (auto simp: copyFile_def nextFault_def noFaults_def)

lemma keepsFileD: "keepsFile tool path \<Longrightarrow> tool w = (r, w') \<Longrightarrow> files w' path = files w path"
  by (auto simp: keepsFile_def dest: spec [of _ w])

lemma restoreAndReturn_Inl:
  "restoreAndReturn bk fp r w = (Inl e, w') \<Longrightarrow> bk \<noteq> fp \<Longrightarrow> files w' bk = files w bk"
  by (auto simp: restoreAndReturn_def split: prod.splits sum.splits dest: restoreBackup_Inl)

lemma restoreAndReturn_Inr:
  "restoreAndReturn bk fp r w = (Inr res, w') \<Longrightarrow> bk \<noteq> fp \<Longrightarrow>
     res = r \<and> files w' fp = files w bk \<and> files w' bk = None"
  by (auto simp: restoreAndReturn_def split: prod.splits sum.splits dest: restoreBackup_Inr)

lemma renameAndVerify_Inl:
  assumes kr: "keepsFile (dispatchRename tools fp s lang n dir) bk"
    and kv: "keepsFile (dispatchVerify tools fp lang dir) bk"
    and neq: "bk \<noteq> fp"
    and run: "renameAndVerify tools fp s lang n dir bk w = (Inl e, w')"
  shows "files w' bk = files w bk"
proof -
  obtain r w1 where r: "dispatchRename tools fp s lang n dir w = (r, w1)"
    by (cases "dispatchRename tools fp s lang n dir w")
  obtain v w2 where v: "dispatchVerify tools fp lang dir w1 = (v, w2)"
    by (cases "dispatchVerify tools fp lang dir w1")
  have f1: "files w1 bk = files w bk" using kr r by (rule keepsFileD)
  have f2: "files w2 bk = files w1 bk" using kv v by (rule keepsFileD)
  show ?thesis
  proof (cases "success r")
    case False
    with run r have "restoreAndReturn bk fp r w1 = (Inl e, w')"
      by (simp add: renameAndVerify_def)
    with neq f1 show ?thesis by (auto dest: restoreAndReturn_Inl)
  next
    case True
    show ?thesis
    proof (cases v)
      case False
      with True run r v obtain r' l where
        "restoreAndReturn bk fp r' (logMsg WARN l w2) = (Inl e, w')"
        by (simp add: renameAndVerify_def)
      then have "files w' bk = files (logMsg WARN l w2) bk"
        using neq by (rule restoreAndReturn_Inl)
      with f1 f2 show ?thesis by (simp add: logMsg_def)
    next
      case v_ok: True
      with True run r v have "unlink bk w2 = (Inl e, w')"
        by (simp add: renameAndVerify_def split: prod.splits sum.splits)
      then have "files w' = files w2" by (auto dest: unlink_cases)
      with f1 f2 show ?thesis by simp
    qed
  qed
qed

lemma renameAndVerify_Inr:
  assumes kr: "keepsFile (dispatchRename tools fp s lang n dir) bk"
    and kv: "keepsFile (dispatchVerify tools fp lang dir) bk"
    and neq: "bk \<noteq> fp"
    and run: "renameAndVerify tools fp s lang n dir bk w = (Inr res, w')"
    and fail: "\<not> success res"
  shows "files w' fp = files w bk"
proof -
  obtain r w1 where r: "dispatchRename tools fp s lang n dir w = (r, w1)"
    by (cases "dispatchRename tools fp s lang n dir w")
  obtain v w2 where v: "dispatchVerify tools fp lang dir w1 = (v, w2)"
    by (cases "dispatchVerify tools fp lang dir w1")
  have f1: "files w1 bk = files w bk" using kr r by (rule keepsFileD)
  have f2: "files w2 bk = files w1 bk" using kv v by (rule keepsFileD)
  show ?thesis
  proof (cases "success r")
    case False
    with run r have "restoreAndReturn bk fp r w1 = (Inr res, w')"
      by (simp add: renameAndVerify_def)
    with neq f1 show ?thesis by (auto dest: restoreAndReturn_Inr)
  next
    case True
    show ?thesis
    proof (cases v)
      case False
      with True run r v obtain r' l where
        "restoreAndReturn bk fp r' (logMsg WARN l w2) = (Inr res, w')"
        by (simp add: renameAndVerify_def)
      then have "files w' fp = files (logMsg WARN l w2) bk"
        using neq by (auto dest: restoreAndReturn_Inr)
      with f1 f2 show ?thesis by (simp add: logMsg_def)
    next
      case v_ok: True
      with True run r v have "res = r"
        by (auto simp: renameAndVerify_def split: prod.splits sum.splits)
      with True fail show ?thesis by simp
    qed
  qed
qed

lemma performSafeRename_failure:
  assumes kr: "keepsFile (dispatchRename tools fp s lang n dir) (fp @ ''.backup'')"
    and kv: "keepsFile (dispatchVerify tools fp lang dir) (fp @ ''.backup'')"
    and run: "performSafeRename tools fp s lang n dir w = (res, w')"
    and fail: "\<not> success res"
  shows "files w' fp = files w fp
         \<or> (\<exists>w1 e w2 e' w3.
               copyFile fp (fp @ ''.backup'') w = (Inr (), w1)
               \<and> renameAndVerify tools fp s lang n dir (fp @ ''.backup'') w1 = (Inl e, w2)
               \<and> copyFile (fp @ ''.backup'') fp w2 = (Inl e', w3))"
proof -
  let ?bk = "fp @ ''.backup''"
  have neq: "?bk \<noteq> fp" by simp
  obtain b w1 where b: "copyFile fp ?bk w = (b, w1)" by (cases "copyFile fp ?bk w")
  show ?thesis
  proof (cases b)
    case (Inl e)
    with b have "files w1 = files w" by (auto dest: copyFile_cases)
    with Inl b run show ?thesis by (auto simp: performSafeRename_def logMsg_def)
  next
    case (Inr u)
    with b obtain c where c: "files w fp = Some c" "files w1 = (files w)(?bk \<mapsto> c)"
      by (auto dest: copyFile_cases)
    then have bk1: "files w1 ?bk = files w fp" by simp
    obtain t w2 where t: "renameAndVerify tools fp s lang n dir ?bk w1 = (t, w2)"
      by (cases "renameAndVerify tools fp s lang n dir ?bk w1")
    show ?thesis
    proof (cases t)
      case ok: (Inr r)
      with Inr b t run have "res = r" "w' = w2" by (simp_all add: performSafeRename_def)
      with ok t fail renameAndVerify_Inr [OF kr kv neq, of w1 r w2] bk1 show ?thesis by simp
    next
      case err: (Inl e)
      with Inr b t run have w': "w' = emergencyRestore ?bk fp w2"
        by (simp add: performSafeRename_def)
      from err t renameAndVerify_Inl [OF kr kv neq, of w1 e w2] bk1
      have bk2: "files w2 ?bk = files w fp" by simp
      from emergencyRestore_files [OF neq, of w2] show ?thesis
      proof
        assume "files (emergencyRestore ?bk fp w2) fp = files w2 ?bk"
        with w' bk2 show ?thesis by simp
      next
        assume "\<exists>e' w3. copyFile ?bk fp w2 = (Inl e', w3)"
        with Inr b err t show ?thesis by auto
      qed
    qed
  qed
qed

lemma performSafeRename_catch:
  assumes backup: "copyFile fp (fp @ ''.backup'') w = (Inr (), w1)"
    and kr: "keepsFile (dispatchRename tools fp s lang n dir) (fp @ ''.backup'')"
    and kv: "keepsFile (dispatchVerify tools fp lang dir) (fp @ ''.backup'')"
    and thrown: "renameAndVerify tools fp s lang n dir (fp @ ''.backup'') w1 = (Inl e, w2)"
    and nf: "noFaults 1 w2"
  shows "fst (performSafeRename tools fp s lang n dir w) = failed fp (oldName s) (newName s) e
         \<and> files (snd (performSafeRename tools fp s lang n dir w)) fp = files w fp"
proof -
  let ?bk = "fp @ ''.backup''"
  have neq: "?bk \<noteq> fp" by simp
  from backup obtain c where c: "files w fp = Some c" "files w1 = (files w)(?bk \<mapsto> c)"
    by (auto dest: copyFile_cases)
  from renameAndVerify_Inl [OF kr kv neq thrown] c have bk2: "files w2 ?bk = Some c" by simp
  from copyFile_noFault [OF nf bk2] obtain w3 where "copyFile ?bk fp w2 = (Inr (), w3)" by blast
  with emergencyRestore_files [OF neq, of w2] bk2 c
  have "files (emergencyRestore ?bk fp w2) fp = files w fp" by simp
  with backup thrown show ?thesis by (simp add: performSafeRename_def)
qed

lemma performSafeRename_verification:
  assumes backup: "copyFile fp (fp @ ''.backup'') w = (Inr (), w1)"
    and kr: "keepsFile (dispatchRename tools fp s lang n dir) (fp @ ''.backup'')"
    and kv: "keepsFile (dispatchVerify tools fp lang dir) (fp @ ''.backup'')"
    and r: "dispatchRename tools fp s lang n dir w1 = (r, w2)"
    and ok: "success r"
    and v: "dispatchVerify tools fp lang dir w2 = (False, w3)"
    and nf: "noFaults 2 w3"
  shows "\<exists>w'. performSafeRename tools fp s lang n dir w =
           (r\<lparr> success := False, error := Some ''Verification failed after rename'' \<rparr>, w')
         \<and> files w' fp = files w fp \<and> files w' (fp @ ''.backup'') = None"
proof -
  let ?bk = "fp @ ''.backup''"
  from backup obtain c where c: "files w fp = Some c" "files w1 = (files w)(?bk \<mapsto> c)"
    by (auto dest: copyFile_cases)
  have f2: "files w2 ?bk = Some c" using keepsFileD [OF kr r] c by simp
  have f3: "files w3 ?bk = Some c" using keepsFileD [OF kv v] f2 by simp
  let ?w3 = "logMsg WARN (''Verification failed for '' @ fp @ '', rolling back'') w3"
  from nf f3 obtain w4 where w4: "restoreBackup ?bk fp ?w3 = (Inr (), w4)"
    "files w4 fp = Some c" "files w4 ?bk = None"
    by (cases "faults w3"; cases "tl (faults w3)")
       (auto simp: noFaults_def restoreBackup_def copyFile_def unlink_def nextFault_def logMsg_def
             split: list.splits option.splits)
  with backup r ok v c show ?thesis
    by (simp add: performSafeRename_def renameAndVerify_def restoreAndReturn_def)
qed

lemmas orchestrator_defs =
  performRequest_def performSafeRename_def renameAndVerify_def restoreAndReturn_def
  restoreBackup_def emergencyRestore_def dispatchRename_def dispatchVerify_def
  renamePythonSymbol_def renameGoSymbol_def copyFile_def unlink_def logMsg_def
  exampleTools_def acceptAll_def rejectProfile_def renameData_def scenarioB_def

lemma fallbackPythonRename_keeps:
  "path \<noteq> fp \<Longrightarrow> keepsFile (fallbackPythonRename fp old new) path"
  by (auto simp: keepsFile_def fallbackPythonRename_def readFile_def writeFile_def nextFault_def
      Let_def split: list.splits option.splits)

text \<open>
  Claim C1. The backends and checks are assumed to leave the backup file alone. Then a
  call of \<open>performSafeRename\<close> that returns \<open>success = False\<close> leaves the target file
  with the content it had before the call, unless the body of the \<open>try\<close> threw and the
  copy from the backup in the \<open>catch\<close> block failed in its turn. When the body of the
  \<open>try\<close> throws and that copy meets no I/O fault, the outcome is the failure that
  carries the thrown error and the file is as before. When the backup is made, the
  backend rename succeeds, the check fails and the restore runs without an I/O fault,
  the outcome is the rename outcome with \<open>success = False\<close> and the error
  \<open>Verification failed after rename\<close>, the file is as before and the backup is gone.
\<close>

theorem performSafeRename_rollback:
  assumes "keepsFile (dispatchRename tools fp s lang n dir) (fp @ ''.backup'')"
    and "keepsFile (dispatchVerify tools fp lang dir) (fp @ ''.backup'')"
  shows "(\<forall>res w'. performSafeRename tools fp s lang n dir w = (res, w') \<and> \<not> success res \<longrightarrow>
            files w' fp = files w fp
            \<or> (\<exists>w1 e w2 e' w3.
                  copyFile fp (fp @ ''.backup'') w = (Inr (), w1)
                  \<and> renameAndVerify tools fp s lang n dir (fp @ ''.backup'') w1 = (Inl e, w2)
                  \<and> copyFile (fp @ ''.backup'') fp w2 = (Inl e', w3)))
       \<and> (\<forall>w1 e w2.
            copyFile fp (fp @ ''.backup'') w = (Inr (), w1)
            \<and> renameAndVerify tools fp s lang n dir (fp @ ''.backup'') w1 = (Inl e, w2)
            \<and> noFaults 1 w2 \<longrightarrow>
            fst (performSafeRename tools fp s lang n dir w) = failed fp (oldName s) (newName s) e
            \<and> files (snd (performSafeRename tools fp s lang n dir w)) fp = files w fp)
       \<and> (\<forall>w1 r w2 w3.
            copyFile fp (fp @ ''.backup'') w = (Inr (), w1)
            \<and> dispatchRename tools fp s lang n dir w1 = (r, w2) \<and> success r
            \<and> dispatchVerify tools fp lang dir w2 = (False, w3) \<and> noFaults 2 w3 \<longrightarrow>
            (\<exists>w'. performSafeRename tools fp s lang n dir w =
                     (r\<lparr> success := False, error := Some ''Verification failed after rename'' \<rparr>, w')
                  \<and> files w' fp = files w fp \<and> files w' (fp @ ''.backup'') = None))"
proof -
  note failure = performSafeRename_failure [OF assms]
  note catch = performSafeRename_catch [OF _ assms]
  note verification = performSafeRename_verification [OF _ assms]
  have a: "\<forall>res w'. performSafeRename tools fp s lang n dir w = (res, w') \<and> \<not> success res \<longrightarrow>
            files w' fp = files w fp
            \<or> (\<exists>w1 e w2 e' w3.
                  copyFile fp (fp @ ''.backup'') w = (Inr (), w1)
                  \<and> renameAndVerify tools fp s lang n dir (fp @ ''.backup'') w1 = (Inl e, w2)
                  \<and> copyFile (fp @ ''.backup'') fp w2 = (Inl e', w3))"
    using failure by blast
  have b: "\<forall>w1 e w2.
            copyFile fp (fp @ ''.backup'') w = (Inr (), w1)
            \<and> renameAndVerify tools fp s lang n dir (fp @ ''.backup'') w1 = (Inl e, w2)
            \<and> noFaults 1 w2 \<longrightarrow>
            fst (performSafeRename tools fp s lang n dir w) = failed fp (oldName s) (newName s) e
            \<and> files (snd (performSafeRename tools fp s lang n dir w)) fp = files w fp"
    using catch by blast
  have c: "\<forall>w1 r w2 w3.
            copyFile fp (fp @ ''.backup'') w = (Inr (), w1)
            \<and> dispatchRename tools fp s lang n dir w1 = (r, w2) \<and> success r
            \<and> dispatchVerify tools fp lang dir w2 = (False, w3) \<and> noFaults 2 w3 \<longrightarrow>
            (\<exists>w'. performSafeRename tools fp s lang n dir w =
                     (r\<lparr> success := False, error := Some ''Verification failed after rename'' \<rparr>, w')
                  \<and> files w' fp = files w fp \<and> files w' (fp @ ''.backup'') = None)"
    using verification by blast
  from a b c show ?thesis by blast
qed

text \<open>
  Three runs on the file of Scenario C. The check rejects the renamed file: the
  verification path. The deletion of the backup after a good check fails: the \<open>catch\<close>
  block restores the file. The deletion and the copy in the \<open>catch\<close> block both fail:
  the file stays renamed, the one exception.
\<close>

theorem performSafeRename_rollback_witness:
  "fst (performSafeRename (exampleTools rejectProfile) ''app.py'' (scenarioB False) python 1 ''.''
          (oneFile ''app.py'' scenarioC)) =
     \<lparr> success = False, res_file = ''app.py'', res_oldName = ''data'',
       res_newName = ''userProfile'', referencesUpdated = 2,
       error = Some ''Verification failed after rename'' \<rparr>
   \<and> files (snd (performSafeRename (exampleTools rejectProfile) ''app.py'' (scenarioB False)
        python 1 ''.'' (oneFile ''app.py'' scenarioC))) ''app.py'' = Some scenarioC
   \<and> fst (performSafeRename (exampleTools acceptAll) ''app.py'' (scenarioB False) python 1 ''.''
          fourthFails) = failed ''app.py'' ''data'' ''userProfile'' ''Error: EIO''
   \<and> files (snd (performSafeRename (exampleTools acceptAll) ''app.py'' (scenarioB False)
        python 1 ''.'' fourthFails)) ''app.py'' = Some scenarioC
   \<and> files (snd (performSafeRename (exampleTools acceptAll) ''app.py'' (scenarioB False)
        python 1 ''.'' fifthFailsToo)) ''app.py'' =
       Some ''const userProfile = 1;\<newline>console.log(userProfile);''
   \<and> fst (copyFile ''app.py.backup'' ''app.py''
        (snd (renameAndVerify (exampleTools acceptAll) ''app.py'' (scenarioB False) python 1 ''.''
           ''app.py.backup'' (snd (copyFile ''app.py'' ''app.py.backup'' fifthFailsToo))))) =
       Inl ''Error: EIO''"
proof -
  let ?tools = "exampleTools rejectProfile"
  let ?w = "oneFile ''app.py'' scenarioC"
  let ?rename = "dispatchRename ?tools ''app.py'' (scenarioB False) python 1 ''.''"
  let ?verify = "dispatchVerify ?tools ''app.py'' python ''.''"
  let ?w1 = "snd (copyFile ''app.py'' (''app.py'' @ ''.backup'') ?w)"
  let ?r = "fst (?rename ?w1)"
  let ?w2 = "snd (?rename ?w1)"
  let ?w3 = "snd (?verify ?w2)"
  have kr: "keepsFile ?rename (''app.py'' @ ''.backup'')"
    using fallbackPythonRename_keeps [of "''app.py'' @ ''.backup''" "''app.py''" "''data''" "''userProfile''"]
    by (simp add: keepsFile_def dispatchRename_def renamePythonSymbol_def exampleTools_def
        scenarioB_def)
  have kv: "keepsFile ?verify (''app.py'' @ ''.backup'')"
    by (simp add: keepsFile_def dispatchVerify_def exampleTools_def rejectProfile_def
        split: option.splits)
  have backup: "copyFile ''app.py'' (''app.py'' @ ''.backup'') ?w = (Inr (), ?w1)"
    by (simp add: copyFile_def nextFault_def oneFile_def)
  have w1: "?w1 = \<lparr> files = [''app.py'' \<mapsto> scenarioC, ''app.py.backup'' \<mapsto> scenarioC],
                    faults = [], logged = [] \<rparr>"
    by (simp add: copyFile_def nextFault_def oneFile_def)
  have rename: "?rename ?w1 = (?r, ?w2)" by simp
  have r: "?r = renamed ''app.py'' ''data'' ''userProfile'' 2"
    unfolding w1
    by (simp add: dispatchRename_def renamePythonSymbol_def exampleTools_def scenarioB_def
        fallback_defs scenarioC_def)
  have w2: "faults ?w2 = [] \<and> files ?w2 ''app.py'' =
              Some ''const userProfile = 1;\<newline>console.log(userProfile);''"
    unfolding w1
    by (simp add: dispatchRename_def renamePythonSymbol_def exampleTools_def scenarioB_def
        fallback_defs scenarioC_def)
  have verify: "?verify ?w2 = (False, ?w3)" and w3: "noFaults 2 ?w3"
    using w2
    by (simp_all add: dispatchVerify_def exampleTools_def rejectProfile_def noFaults_def
        fallback_defs)
  from r have ok: "success ?r" by (simp add: renamed_def)
  from performSafeRename_rollback [OF kr kv, of ?w] backup rename ok verify w3
  obtain w' where
    "performSafeRename ?tools ''app.py'' (scenarioB False) python 1 ''.'' ?w =
       (?r\<lparr> success := False, error := Some ''Verification failed after rename'' \<rparr>, w')"
    "files w' ''app.py'' = files ?w ''app.py''"
    by blast
  with r have verification:
    "fst (performSafeRename ?tools ''app.py'' (scenarioB False) python 1 ''.'' ?w) =
       \<lparr> success = False, res_file = ''app.py'', res_oldName = ''data'',
         res_newName = ''userProfile'', referencesUpdated = 2,
         error = Some ''Verification failed after rename'' \<rparr>
     \<and> files (snd (performSafeRename ?tools ''app.py'' (scenarioB False) python 1 ''.'' ?w))
          ''app.py'' = Some scenarioC"
    by (simp add: renamed_def oneFile_def)

  let ?accept = "exampleTools acceptAll"
  let ?run = "performSafeRename ?accept ''app.py'' (scenarioB False) python 1 ''.''"
  let ?body = "renameAndVerify ?accept ''app.py'' (scenarioB False) python 1 ''.''
                 (''app.py'' @ ''.backup'')"
  have kr': "keepsFile (dispatchRename ?accept ''app.py'' (scenarioB False) python 1 ''.'')
               (''app.py'' @ ''.backup'')"
    using fallbackPythonRename_keeps [of "''app.py'' @ ''.backup''" "''app.py''" "''data''" "''userProfile''"]
    by (simp add: keepsFile_def dispatchRename_def renamePythonSymbol_def exampleTools_def
        scenarioB_def)
  have kv': "keepsFile (dispatchVerify ?accept ''app.py'' python ''.'') (''app.py'' @ ''.backup'')"
    by (simp add: keepsFile_def dispatchVerify_def exampleTools_def acceptAll_def)
  note rollback = performSafeRename_rollback [OF kr' kv']

  let ?v1 = "snd (copyFile ''app.py'' (''app.py'' @ ''.backup'') fourthFails)"
  have backup4: "copyFile ''app.py'' (''app.py'' @ ''.backup'') fourthFails = (Inr (), ?v1)"
    by (simp add: copyFile_def nextFault_def fourthFails_def)
  have thrown4: "?body ?v1 = (Inl ''Error: EIO'', snd (?body ?v1))"
    and nf4: "noFaults 1 (snd (?body ?v1))"
    by (simp_all add: orchestrator_defs fallback_defs fourthFails_def scenarioC_def noFaults_def)
  from rollback [of fourthFails] backup4 thrown4 nf4
  have "fst (?run fourthFails)
          = failed ''app.py'' (oldName (scenarioB False)) (newName (scenarioB False)) ''Error: EIO''
        \<and> files (snd (?run fourthFails)) ''app.py'' = files fourthFails ''app.py''"
    by blast
  then have caught: "fst (?run fourthFails) = failed ''app.py'' ''data'' ''userProfile'' ''Error: EIO''
        \<and> files (snd (?run fourthFails)) ''app.py'' = Some scenarioC"
    by (simp add: scenarioB_def fourthFails_def)

  have stays: "files (snd (?run fifthFailsToo)) ''app.py'' =
       Some ''const userProfile = 1;\<newline>console.log(userProfile);''"
    and copy: "fst (copyFile ''app.py.backup'' ''app.py''
        (snd (renameAndVerify ?accept ''app.py'' (scenarioB False) python 1 ''.''
           ''app.py.backup'' (snd (copyFile ''app.py'' ''app.py.backup'' fifthFailsToo))))) =
       Inl ''Error: EIO''"
    by (simp_all add: orchestrator_defs fallback_defs fifthFailsToo_def scenarioC_def)
  from verification caught stays copy show ?thesis by blast
qed

subsection \<open>Batch rename\<close>

lemma attemptAll_length: "attemptAll tools dir rs w = (outs, w') \<Longrightarrow> length outs = length rs"
  by (induction rs arbitrary: w outs) (auto split: prod.splits)

lemma batchLoop_prefix:
  "attemptAll tools dir xs w = (outs, w1) \<Longrightarrow> list_all success outs \<Longrightarrow>
     batchLoop tools dir acc (xs @ ys) w = batchLoop tools dir (acc @ outs) ys w1"
proof (induction xs arbitrary: w outs acc)
  case Nil
  then show ?case by simp
next
  case (Cons x xs)
  obtain r wx where r: "performRequest tools dir x w = (r, wx)"
    by (cases "performRequest tools dir x w")
  obtain rest wr where rest: "attemptAll tools dir xs wx = (rest, wr)"
    by (cases "attemptAll tools dir xs wx")
  from Cons.prems r rest have outs: "outs = r # rest" "wr = w1" by simp_all
  with Cons.prems have ok: "success r" "list_all success rest" by simp_all
  from Cons.IH [of wx rest "acc @ [r]"] rest outs ok
  have "batchLoop tools dir (acc @ [r]) (xs @ ys) wx = batchLoop tools dir (acc @ r # rest) ys w1"
    by simp
  with r ok outs show ?case by simp
qed

lemma batchRename_all:
  assumes "attemptAll tools dir rs w = (outs, w')" "list_all success outs"
  shows "batchRename tools rs dir w = (outs, w')"
  using batchLoop_prefix [OF assms, of "[]" "[]"] by (simp add: batchRename_def)

lemma batchRename_stop:
  assumes i: "i < length rs"
    and pre: "attemptAll tools dir (take i rs) w = (outs, w1)"
    and ok: "list_all success outs"
    and r: "performRequest tools dir (rs ! i) w1 = (res, w2)"
    and fail: "\<not> success res"
  shows "batchRename tools rs dir w =
           (outs @ [res], logMsg WARN ''Stopping batch rename due to failure'' w2)"
proof -
  from i have rs: "rs = take i rs @ (rs ! i) # drop (Suc i) rs"
    by (simp add: id_take_nth_drop)
  have "batchRename tools rs dir w = batchLoop tools dir [] (take i rs @ (rs ! i) # drop (Suc i) rs) w"
    using rs by (simp add: batchRename_def)
  also have "\<dots> = batchLoop tools dir outs ((rs ! i) # drop (Suc i) rs) w1"
    using batchLoop_prefix [OF pre ok, of "[]"] by simp
  also have "\<dots> = (outs @ [res], logMsg WARN ''Stopping batch rename due to failure'' w2)"
    using r fail by simp
  finally show ?thesis .
qed

text \<open>
  Claim C2. The requests are attempted in list order. With \<open>i\<close> counting from 0: when
  the requests before position \<open>i\<close> all succeed and the request at position \<open>i\<close> fails,
  \<open>batchRename\<close> returns the outcomes of exactly these \<open>i + 1\<close> requests, and the world
  it leaves is the one left by the failing request (with one more log line), so the later
  requests are not attempted and change no file. When every request succeeds, it returns
  the outcome of every request, as many as there are requests.
\<close>

theorem batchRename_fail_fast:
  "(\<forall>i outs w1 res w2.
       i < length rs \<and> attemptAll tools dir (take i rs) w = (outs, w1) \<and> list_all success outs
       \<and> performRequest tools dir (rs ! i) w1 = (res, w2) \<and> \<not> success res \<longrightarrow>
       batchRename tools rs dir w =
         (outs @ [res], logMsg WARN ''Stopping batch rename due to failure'' w2)
       \<and> length (fst (batchRename tools rs dir w)) = i + 1
       \<and> files (snd (batchRename tools rs dir w)) = files w2)
   \<and> (\<forall>outs w'.
       attemptAll tools dir rs w = (outs, w') \<and> list_all success outs \<longrightarrow>
       batchRename tools rs dir w = (outs, w') \<and> length outs = length rs)"
proof -
  have stop: "batchRename tools rs dir w =
         (outs @ [res], logMsg WARN ''Stopping batch rename due to failure'' w2)
       \<and> length (fst (batchRename tools rs dir w)) = i + 1
       \<and> files (snd (batchRename tools rs dir w)) = files w2"
    if "i < length rs" "attemptAll tools dir (take i rs) w = (outs, w1)"
       "list_all success outs" "performRequest tools dir (rs ! i) w1 = (res, w2)"
       "\<not> success res"
    for i outs w1 res w2
    using batchRename_stop [OF that] attemptAll_length [OF that(2)] that(1)
    by (simp add: logMsg_def)
  have all: "batchRename tools rs dir w = (outs, w') \<and> length outs = length rs"
    if "attemptAll tools dir rs w = (outs, w')" "list_all success outs" for outs w'
    using batchRename_all [OF that] attemptAll_length [OF that(1)] by simp
  from stop all show ?thesis by blast
qed

theorem batchRename_fail_fast_witness:
  "map success (fst (batchRename (exampleTools acceptAll)
      [renameData ''a.py'', renameData ''b.py'', renameData ''a.py''] ''.''
      (oneFile ''a.py'' scenarioC))) = [True, False]
   \<and> files (snd (batchRename (exampleTools acceptAll)
      [renameData ''a.py'', renameData ''b.py'', renameData ''a.py''] ''.''
      (oneFile ''a.py'' scenarioC))) ''a.py'' =
     Some ''const userProfile = 1;\<newline>console.log(userProfile);''
   \<and> map success (fst (batchRename (exampleTools acceptAll) [renameData ''a.py''] ''.''
      (oneFile ''a.py'' scenarioC))) = [True]"
proof -
  let ?tools = "exampleTools acceptAll"
  let ?rs = "[renameData ''a.py'', renameData ''b.py'', renameData ''a.py'']"
  let ?w = "oneFile ''a.py'' scenarioC"
  let ?first = "performRequest ?tools ''.'' (renameData ''a.py'') ?w"
  let ?second = "performRequest ?tools ''.'' (renameData ''b.py'') (snd ?first)"
  have first: "fst ?first = renamed ''a.py'' ''data'' ''userProfile'' 2"
    and w1: "files (snd ?first) =
               [''a.py'' \<mapsto> ''const userProfile = 1;\<newline>console.log(userProfile);'']"
            "faults (snd ?first) = []"
    by (simp_all add: orchestrator_defs fallback_defs scenarioC_def fun_upd_twist)
  have prefix: "attemptAll ?tools ''.'' (take 1 ?rs) ?w = ([fst ?first], snd ?first)"
    by (simp add: case_prod_beta)
  have ok: "list_all success [fst ?first]"
    using first by (simp add: renamed_def)
  have second: "performRequest ?tools ''.'' (?rs ! 1) (snd ?first) = (fst ?second, snd ?second)"
    by simp
  have fail: "\<not> success (fst ?second)" and w2: "files (snd ?second) = files (snd ?first)"
    using w1 by (simp_all add: orchestrator_defs nextFault_def failed_def)
  have i: "(1::nat) < length ?rs" by simp
  from batchRename_fail_fast [of ?rs ?tools "''.''" ?w] i prefix ok second fail
  have stop: "batchRename ?tools ?rs ''.'' ?w =
         ([fst ?first] @ [fst ?second],
          logMsg WARN ''Stopping batch rename due to failure'' (snd ?second))"
    and "files (snd (batchRename ?tools ?rs ''.'' ?w)) = files (snd ?second)"
    by blast+
  with w2 w1 first fail have a: "map success (fst (batchRename ?tools ?rs ''.'' ?w)) = [True, False]"
    and b: "files (snd (batchRename ?tools ?rs ''.'' ?w)) ''a.py'' =
              Some ''const userProfile = 1;\<newline>console.log(userProfile);''"
    by (simp_all add: renamed_def)
  have whole: "attemptAll ?tools ''.'' [renameData ''a.py''] ?w = ([fst ?first], snd ?first)"
    by (simp add: case_prod_beta)
  from batchRename_fail_fast [of "[renameData ''a.py'']" ?tools "''.''" ?w] whole ok
  have "batchRename ?tools [renameData ''a.py''] ''.'' ?w = ([fst ?first], snd ?first)"
    by blast
  with first have c: "map success (fst (batchRename ?tools [renameData ''a.py''] ''.'' ?w)) = [True]"
    by (simp add: renamed_def)
  from a b c show ?thesis by blast
qed


subsection \<open>Suggestion client\<close>

lemma calculateCost_nonneg: "0 \<le> calculateCost m a b"
  by (auto simp: calculateCost_def MODEL_PRICING_def Let_def)

lemma addUsage_mono:
  "totalTokens stats \<le> totalTokens (addUsage m u stats)
   \<and> estimatedCost stats \<le> estimatedCost (addUsage m u stats)
   \<and> apiCalls (addUsage m u stats) = apiCalls stats
   \<and> cacheHitRate (addUsage m u stats) = cacheHitRate stats"
  by (cases u) (simp_all add: addUsage_def calculateCost_nonneg)

text \<open>What one attempt can do.\<close>

lemma attempt_Inr:
  assumes "attempt config svc key now reply st = Inr (r, st')"
  shows "(r = None \<and> st' = st)
       \<or> (\<exists>s. r = Some s \<and> isValidSuggestion s
             \<and> responseCache st' =
                 AList.update key \<lparr> suggestion = s, timestamp = now, ttl = CACHE_TTL \<rparr>
                   (responseCache st)
             \<and> grown (costStats st) (costStats st'))"
proof (cases reply)
  case (RequestFailed e)
  with assms show ?thesis by (simp add: attempt_def)
next
  case (Reply message usage)
  show ?thesis
  proof (cases message)
    case None
    with Reply assms show ?thesis by (simp add: attempt_def)
  next
    case (Some msg)
    show ?thesis
    proof (cases "parseNamingSuggestion svc msg")
      case None
      with Reply Some assms show ?thesis by (simp add: attempt_def split: if_splits)
    next
      case parsed: (Some s)
      show ?thesis
      proof (cases "isValidSuggestion s")
        case False
        with Reply Some parsed assms show ?thesis by (simp add: attempt_def split: if_splits)
      next
        case True
        with Reply Some parsed assms
        have "r = Some s"
          and "st' = cacheResponse key s now
                 (st\<lparr> costStats := (addUsage (model config) usage (costStats st))
                        \<lparr> apiCalls := apiCalls (addUsage (model config) usage (costStats st)) + 1 \<rparr> \<rparr>)"
          by (simp_all add: attempt_def Let_def split: if_splits)
        with True addUsage_mono [of "costStats st" "model config" usage] show ?thesis
          by (simp add: cacheResponse_def grown_def)
      qed
    qed
  qed
qed

lemma retryLoop_None:
  "retryLoop config svc key call i st = (None, st', n) \<Longrightarrow> st' = st"
proof (induction config svc key call i st arbitrary: n rule: retryLoop.induct)
  case (1 config svc key call i st)
  note run = "1.prems" [unfolded retryLoop.simps [of config svc key call i st]]
  show ?case
  proof (cases "int i \<le> maxRetries config")
    case False
    with run show ?thesis by simp
  next
    case True
    show ?thesis
    proof (cases "attempt config svc key (nowStore call) (replies call i) st")
      case (Inl e)
      with True run obtain m where
        "retryLoop config svc key call (i + 1) st = (None, st', m)"
        by (auto split: prod.splits)
      with "1.IH" [OF True Inl] show ?thesis by simp
    next
      case (Inr p)
      with True run have "attempt config svc key (nowStore call) (replies call i) st = Inr (None, st')"
        by (cases p) simp
      with attempt_Inr show ?thesis by blast
    qed
  qed
qed

lemma retryLoop_Some:
  "retryLoop config svc key call i st = (Some s, st', n) \<Longrightarrow>
     1 \<le> n \<and> isValidSuggestion s
     \<and> responseCache st' =
           AList.update key \<lparr> suggestion = s, timestamp = nowStore call, ttl = CACHE_TTL \<rparr>
             (responseCache st)
     \<and> grown (costStats st) (costStats st')"
proof (induction config svc key call i st arbitrary: n rule: retryLoop.induct)
  case (1 config svc key call i st)
  note run = "1.prems" [unfolded retryLoop.simps [of config svc key call i st]]
  show ?case
  proof (cases "int i \<le> maxRetries config")
    case False
    with run show ?thesis by simp
  next
    case True
    show ?thesis
    proof (cases "attempt config svc key (nowStore call) (replies call i) st")
      case (Inl e)
      with True run obtain m where
        "retryLoop config svc key call (i + 1) st = (Some s, st', m)" "n = m + 1"
        by (auto split: prod.splits)
      with "1.IH" [OF True Inl] show ?thesis by simp
    next
      case (Inr p)
      with True run have "attempt config svc key (nowStore call) (replies call i) st = Inr (Some s, st')"
        and "n = 1"
        by (cases p; simp)+
      with attempt_Inr [of config svc key "nowStore call" "replies call i" st "Some s" st']
      show ?thesis by auto
    qed
  qed
qed

lemma retryLoop_requests:
  "int i \<le> maxRetries config \<Longrightarrow> 1 \<le> snd (snd (retryLoop config svc key call i st))"
  by (subst retryLoop.simps) (simp split: sum.splits prod.splits)

text \<open>The attempts before attempt \<open>k\<close> throw, attempt \<open>k\<close> returns.\<close>

lemma retryLoop_returns_at:
  assumes "\<forall>j. i \<le> j \<and> j < k \<longrightarrow> (\<exists>e. attempt config svc key (nowStore call) (replies call j) st = Inl e)"
    and "i \<le> k" and "int k \<le> maxRetries config"
    and "attempt config svc key (nowStore call) (replies call k) st = Inr (r, st')"
  shows "retryLoop config svc key call i st = (r, st', k - i + 1)"
  using assms
proof (induction "k - i" arbitrary: i)
  case 0
  then have "i = k" by simp
  with 0 show ?case by (subst retryLoop.simps) simp
next
  case (Suc d)
  then have i: "i < k" "int i \<le> maxRetries config" by simp_all
  with Suc.prems obtain e where e: "attempt config svc key (nowStore call) (replies call i) st = Inl e"
    by auto
  have "retryLoop config svc key call (i + 1) st = (r, st', k - (i + 1) + 1)"
    using Suc.hyps Suc.prems i by (intro Suc.hyps(1)) auto
  with e i show ?case by (subst retryLoop.simps) simp
qed

lemma getCachedResponse_hit:
  "getCachedResponse key now st = (Some s, st') \<Longrightarrow>
     st' = st \<and> (\<exists>entry. map_of (responseCache st) key = Some entry \<and> suggestion entry = s
                    \<and> now - timestamp entry \<le> ttl entry)"
  by (auto simp: getCachedResponse_def split: option.splits if_splits)

lemma getCachedResponse_miss:
  "getCachedResponse key now st = (None, st') \<Longrightarrow>
     map_of (responseCache st') key = None \<and> costStats st' = costStats st"
  by (auto simp: getCachedResponse_def delete_conv' split: option.splits if_splits)

lemma getCachedResponse_live:
  "map_of (responseCache st) key = Some entry \<Longrightarrow> now - timestamp entry \<le> ttl entry \<Longrightarrow>
     getCachedResponse key now st = (Some (suggestion entry), st)"
  by (simp add: getCachedResponse_def)

lemma getCachedResponse_expired:
  "map_of (responseCache st) key = Some entry \<Longrightarrow> now - timestamp entry > ttl entry \<Longrightarrow>
     getCachedResponse key now st =
       (None, st\<lparr> responseCache := AList.delete key (responseCache st) \<rparr>)"
  by (simp add: getCachedResponse_def)

text \<open>A suggestion that \<open>askLLM\<close> returns is in the cache afterwards.\<close>

lemma askLLM_Some:
  assumes "askLLM config svc ctx call st = (Some s, st1, n)"
  shows "\<exists>entry. map_of (responseCache st1) (getCacheKey svc ctx) = Some entry
           \<and> suggestion entry = s
           \<and> (0 < n \<longrightarrow> timestamp entry = nowStore call \<and> ttl entry = CACHE_TTL
                        \<and> isValidSuggestion s)"
proof -
  let ?key = "getCacheKey svc ctx"
  obtain c st0 where look: "getCachedResponse ?key (nowLookup call) st = (c, st0)"
    by (cases "getCachedResponse ?key (nowLookup call) st")
  show ?thesis
  proof (cases c)
    case (Some cached)
    with look assms have "cached = s" "st1 = st0" "n = 0" by (simp_all add: askLLM_def)
    with Some look getCachedResponse_hit [of ?key "nowLookup call" st s st0] show ?thesis by auto
  next
    case None
    with look assms have "retryLoop config svc ?key call 0 st0 = (Some s, st1, n)"
      by (simp add: askLLM_def)
    from retryLoop_Some [OF this] show ?thesis by (simp add: update_conv')
  qed
qed

lemma askLLM_hit:
  assumes "map_of (responseCache st) (getCacheKey svc ctx) = Some entry"
    and "nowLookup call - timestamp entry \<le> ttl entry"
  shows "askLLM config svc ctx call st = (Some (suggestion entry), st, 0)"
  using getCachedResponse_live [OF assms] by (simp add: askLLM_def)

lemma askLLM_expired:
  assumes entry: "map_of (responseCache st) (getCacheKey svc ctx) = Some entry"
    and late: "nowLookup call - timestamp entry > ttl entry"
    and run: "askLLM config svc ctx call st = (r, st2, n)"
  shows "(0 \<le> maxRetries config \<longrightarrow> 1 \<le> n)
       \<and> (r \<noteq> None \<longrightarrow> 1 \<le> n \<and> apiCalls (costStats st2) = apiCalls (costStats st) + 1)"
proof -
  let ?key = "getCacheKey svc ctx"
  let ?st0 = "st\<lparr> responseCache := AList.delete ?key (responseCache st) \<rparr>"
  from getCachedResponse_expired [OF entry late] run
  have loop: "retryLoop config svc ?key call 0 ?st0 = (r, st2, n)"
    by (simp add: askLLM_def Let_def)
  have a: "0 \<le> maxRetries config \<longrightarrow> 1 \<le> n"
    using retryLoop_requests [of 0 config svc ?key call ?st0] loop by simp
  have b: "r \<noteq> None \<longrightarrow> 1 \<le> n \<and> apiCalls (costStats st2) = apiCalls (costStats st) + 1"
  proof
    assume "r \<noteq> None"
    then obtain s where "r = Some s" by auto
    with loop retryLoop_Some [of config svc ?key call 0 ?st0 s st2 n]
    show "1 \<le> n \<and> apiCalls (costStats st2) = apiCalls (costStats st) + 1"
      by (simp add: grown_def)
  qed
  from a b show ?thesis by blast
qed

lemmas client_defs =
  askLLM_def getCacheKey_def getCachedResponse_def attempt_def cacheResponse_def addUsage_def
  calculateCost_def MODEL_PRICING_def isValidSuggestion_def validIdentifier_def isIdentStart_def
  isIdentPart_def isDigit_def getCostStats_def initialClient_def initialStats_def
  defaultConfig_def exampleService_def exampleContext_def exampleUsage_def callAt_def
  flakyCallAt_def scenarioB_def CACHE_TTL_def

lemma firstAsk:
  "askLLM defaultConfig exampleService exampleContext (callAt 0 ''A'') initialClient =
     (Some (scenarioB False), cachedClient, 1)"
  by (simp add: client_defs cachedClient_def retryLoop.simps [of _ _ _ _ 0])

text \<open>
  Claim C4. When \<open>askLLM\<close> returns a suggestion, the cache holds it under the key of
  the context; if this call sent a request, the entry carries the time of storing and a
  time to live of one hour (3600000 ms). A second call for the same context whose lookup
  time is at most the time to live after the entry's timestamp returns the same
  suggestion, sends no request and leaves the client state, with \<open>apiCalls\<close>, as it
  is. A lookup later than that deletes the entry; the call then goes to the service (at
  least one request when \<open>maxRetries\<close> is not negative), and when it returns a
  suggestion \<open>apiCalls\<close> has grown by one.
\<close>

theorem askLLM_cache:
  assumes "askLLM config svc ctx call1 st = (Some s, st1, n1)"
  shows "(\<exists>entry. map_of (responseCache st1) (getCacheKey svc ctx) = Some entry
            \<and> suggestion entry = s
            \<and> (0 < n1 \<longrightarrow> timestamp entry = nowStore call1 \<and> ttl entry = 3600000))
       \<and> (\<forall>entry call2.
             map_of (responseCache st1) (getCacheKey svc ctx) = Some entry
             \<and> nowLookup call2 - timestamp entry \<le> ttl entry \<longrightarrow>
             askLLM config svc ctx call2 st1 = (Some s, st1, 0))
       \<and> (\<forall>entry call2 r st2 n2.
             map_of (responseCache st1) (getCacheKey svc ctx) = Some entry
             \<and> nowLookup call2 - timestamp entry > ttl entry
             \<and> askLLM config svc ctx call2 st1 = (r, st2, n2) \<longrightarrow>
             map_of (responseCache (snd (getCachedResponse (getCacheKey svc ctx)
                                           (nowLookup call2) st1)))
               (getCacheKey svc ctx) = None
             \<and> (0 \<le> maxRetries config \<longrightarrow> 1 \<le> n2)
             \<and> (r \<noteq> None \<longrightarrow>
                   1 \<le> n2 \<and> apiCalls (costStats st2) = apiCalls (costStats st1) + 1))"
proof -
  let ?key = "getCacheKey svc ctx"
  from askLLM_Some [OF assms] obtain e where
    e: "map_of (responseCache st1) ?key = Some e" "suggestion e = s"
      "0 < n1 \<longrightarrow> timestamp e = nowStore call1 \<and> ttl e = CACHE_TTL"
    by blast
  from e(3) have fresh: "0 < n1 \<longrightarrow> timestamp e = nowStore call1 \<and> ttl e = 3600000"
    by (simp add: CACHE_TTL_def)
  have hit: "askLLM config svc ctx call2 st1 = (Some s, st1, 0)"
    if "map_of (responseCache st1) ?key = Some entry"
       "nowLookup call2 - timestamp entry \<le> ttl entry" for entry call2
    using askLLM_hit [OF that] that(1) e(1,2) by simp
  have evict: "map_of (responseCache (snd (getCachedResponse ?key (nowLookup call2) st1))) ?key = None"
    if "map_of (responseCache st1) ?key = Some entry"
       "nowLookup call2 - timestamp entry > ttl entry" for entry call2
    using getCachedResponse_expired [OF that] by (simp add: delete_conv')
  have again: "(0 \<le> maxRetries config \<longrightarrow> 1 \<le> n2)
       \<and> (r \<noteq> None \<longrightarrow> 1 \<le> n2 \<and> apiCalls (costStats st2) = apiCalls (costStats st1) + 1)"
    if "map_of (responseCache st1) ?key = Some entry"
       "nowLookup call2 - timestamp entry > ttl entry"
       "askLLM config svc ctx call2 st1 = (r, st2, n2)" for entry call2 r st2 n2
    using askLLM_expired [OF that] .
  from e(1,2) fresh have first: "\<exists>entry. map_of (responseCache st1) ?key = Some entry
            \<and> suggestion entry = s
            \<and> (0 < n1 \<longrightarrow> timestamp entry = nowStore call1 \<and> ttl entry = 3600000)"
    by blast
  from first hit evict again show ?thesis by blast
qed

theorem askLLM_cache_witness:
  "askLLM defaultConfig exampleService exampleContext (callAt 0 ''A'') initialClient =
     (Some (scenarioB False), cachedClient, 1)
   \<and> askLLM defaultConfig exampleService exampleContext (callAt 3601200 ''B'') cachedClient =
     (Some (scenarioB False), cachedClient, 0)
   \<and> fst (askLLM defaultConfig exampleService exampleContext (callAt 3601201 ''A'') cachedClient) =
     Some (scenarioB False)
   \<and> apiCalls (costStats (fst (snd (askLLM defaultConfig exampleService exampleContext
        (callAt 3601201 ''A'') cachedClient)))) = 2"
proof -
  let ?ask = "askLLM defaultConfig exampleService exampleContext"
  let ?key = "getCacheKey exampleService exampleContext"
  let ?entry = "\<lparr> suggestion = scenarioB False, timestamp = 1200, ttl = 3600000 \<rparr>"
  let ?third = "?ask (callAt 3601201 ''A'') cachedClient"
  have entry: "map_of (responseCache cachedClient) ?key = Some ?entry"
    by (simp add: cachedClient_def getCacheKey_def exampleService_def exampleContext_def)
  have window: "nowLookup (callAt 3601200 ''B'') - timestamp ?entry \<le> ttl ?entry"
    and expired: "nowLookup (callAt 3601201 ''A'') - timestamp ?entry > ttl ?entry"
    by (simp_all add: callAt_def)
  note cache = askLLM_cache [OF firstAsk]
  from cache entry window
  have second: "?ask (callAt 3601200 ''B'') cachedClient = (Some (scenarioB False), cachedClient, 0)"
    by blast
  have run: "?third = (fst ?third, fst (snd ?third), snd (snd ?third))" by simp
  have result: "fst ?third = Some (scenarioB False)"
    by (simp add: client_defs cachedClient_def retryLoop.simps [of _ _ _ _ 0])
  then have some: "fst ?third \<noteq> None" by simp
  from cache entry expired run some
  have "apiCalls (costStats (fst (snd ?third))) = apiCalls (costStats cachedClient) + 1"
    by blast
  then have third: "apiCalls (costStats (fst (snd ?third))) = 2"
    by (simp add: cachedClient_def)
  from firstAsk second result third show ?thesis by blast
qed

text \<open>
  Claim C7. The lookup misses, the attempts before attempt \<open>k\<close> throw, and the reply to
  attempt \<open>k\<close> parses to a suggestion that renames a name to itself, or whose new name
  is no identifier, or whose rationale has fewer than 10 characters (or whose confidence
  is below 0.3). Then \<open>askLLM\<close> returns none, attempt \<open>k\<close> is the last request it
  sends (\<open>k + 1\<close> requests in all), and neither the cache nor the statistics change.
\<close>

theorem askLLM_discards_invalid:
  assumes miss: "getCachedResponse (getCacheKey svc ctx) (nowLookup call) st = (None, st0)"
    and earlier: "\<forall>j<k. \<exists>e. attempt config svc (getCacheKey svc ctx) (nowStore call)
                               (replies call j) st0 = Inl e"
    and k: "int k \<le> maxRetries config"
    and reply: "replies call k = Reply (Some msg) usage" "msg \<noteq> []"
    and parsed: "parseNamingSuggestion svc msg = Some s"
    and bad: "oldName s = newName s \<or> \<not> validIdentifier (newName s)
              \<or> length (rationale s) < 10 \<or> confidence s < 0.3"
  shows "\<not> isValidSuggestion s \<and> askLLM config svc ctx call st = (None, st0, k + 1)"
proof -
  let ?key = "getCacheKey svc ctx"
  from bad have invalid: "\<not> isValidSuggestion s" by (auto simp: isValidSuggestion_def)
  with reply parsed have "attempt config svc ?key (nowStore call) (replies call k) st0 = Inr (None, st0)"
    by (simp add: attempt_def)
  with retryLoop_returns_at [of 0 k config svc ?key call st0 None st0] earlier k
  have "retryLoop config svc ?key call 0 st0 = (None, st0, k + 1)" by simp
  with miss invalid show ?thesis by (simp add: askLLM_def)
qed

theorem askLLM_discards_invalid_witness:
  "askLLM defaultConfig exampleService exampleContext (flakyCallAt 0 ''B'') initialClient =
     (None, initialClient, 2)"
proof -
  let ?call = "flakyCallAt 0 ''B''"
  let ?s = "(scenarioB False)\<lparr> newName := ''data'' \<rparr>"
  have miss: "getCachedResponse (getCacheKey exampleService exampleContext) (nowLookup ?call)
                initialClient = (None, initialClient)"
    by (simp add: getCachedResponse_def initialClient_def)
  have earlier: "\<forall>j<1. \<exists>e. attempt defaultConfig exampleService
                    (getCacheKey exampleService exampleContext) (nowStore ?call)
                    (replies ?call j) initialClient = Inl e"
    by (simp add: attempt_def flakyCallAt_def)
  have k: "int 1 \<le> maxRetries defaultConfig" by (simp add: defaultConfig_def)
  have reply: "replies ?call 1 = Reply (Some ''B'') (Some exampleUsage)" "''B'' \<noteq> []"
    by (simp_all add: flakyCallAt_def)
  have parsed: "parseNamingSuggestion exampleService ''B'' = Some ?s"
    by (simp add: exampleService_def)
  have bad: "oldName ?s = newName ?s \<or> \<not> validIdentifier (newName ?s)
              \<or> length (rationale ?s) < 10 \<or> confidence ?s < 0.3"
    by (simp add: scenarioB_def)
  from askLLM_discards_invalid [OF miss earlier k reply parsed bad] show ?thesis by simp
qed

subsection \<open>Pipeline driver\<close>

lemma collectReview_confident:
  "collectReview config svc acc contexts st = (found, st') \<Longrightarrow>
     \<forall>(s, c) \<in> set acc. 0.3 \<le> confidence s \<Longrightarrow>
     \<forall>(s, c) \<in> set found. 0.3 \<le> confidence s"
proof (induction contexts arbitrary: acc st)
  case Nil
  then show ?case by simp
next
  case (Cons x contexts)
  obtain c call where x: "x = (c, call)" by (cases x)
  obtain r st1 n where ask: "askLLM config svc c call st = (r, st1, n)"
    by (cases "askLLM config svc c call st")
  show ?case
  proof (cases r)
    case None
    with Cons.prems x ask have "collectReview config svc acc contexts st1 = (found, st')" by simp
    from Cons.IH [OF this Cons.prems(2)] show ?thesis .
  next
    case (Some s)
    show ?thesis
    proof (cases "0.3 \<le> confidence s")
      case True
      with Some Cons.prems x ask
      have "collectReview config svc (acc @ [(s, c)]) contexts st1 = (found, st')" by simp
      moreover from True Cons.prems(2) have "\<forall>(s, c) \<in> set (acc @ [(s, c)]). 0.3 \<le> confidence s"
        by auto
      ultimately show ?thesis by (rule Cons.IH)
    next
      case False
      with Some Cons.prems x ask have "collectReview config svc acc contexts st1 = (found, st')"
        by simp
      from Cons.IH [OF this Cons.prems(2)] show ?thesis .
    qed
  qed
qed

lemma collectAutofix_confident:
  "collectAutofix config svc allS autoS contexts st = (allS', autoS', st') \<Longrightarrow>
     collected allS autoS \<Longrightarrow> collected allS' autoS'"
proof (induction contexts arbitrary: allS autoS st)
  case Nil
  then show ?case by simp
next
  case (Cons x contexts)
  obtain c call where x: "x = (c, call)" by (cases x)
  obtain r st1 n where ask: "askLLM config svc c call st = (r, st1, n)"
    by (cases "askLLM config svc c call st")
  show ?case
  proof (cases r)
    case None
    with Cons.prems x ask
    have "collectAutofix config svc allS autoS contexts st1 = (allS', autoS', st')" by simp
    from Cons.IH [OF this Cons.prems(2)] show ?thesis .
  next
    case (Some s)
    show ?thesis
    proof (cases "0.3 \<le> confidence s")
      case True
      let ?auto = "if shouldAutoRename s then autoS @ [(s, c)] else autoS"
      from True Some Cons.prems x ask
      have "collectAutofix config svc (allS @ [(s, c)]) ?auto contexts st1 = (allS', autoS', st')"
        by simp
      moreover from True Cons.prems(2) have "collected (allS @ [(s, c)]) ?auto"
        by (auto simp: collected_def)
      ultimately show ?thesis by (rule Cons.IH)
    next
      case False
      with Some Cons.prems x ask
      have "collectAutofix config svc allS autoS contexts st1 = (allS', autoS', st')" by simp
      from Cons.IH [OF this Cons.prems(2)] show ?thesis .
    qed
  qed
qed

lemma askLLM_fresh_valid:
  "askLLM config svc ctx call st = (Some s, st1, n) \<Longrightarrow> 0 < n \<Longrightarrow> isValidSuggestion s"
  using askLLM_Some by blast

lemma isValidSuggestion_confidence: "isValidSuggestion s \<Longrightarrow> 0.3 \<le> confidence s"
  by (simp add: isValidSuggestion_def split: if_splits)

subsection \<open>Cost statistics\<close>

lemma askLLM_stats:
  "countersGrow (costStats st) (costStats (fst (snd (askLLM config svc ctx call st))))"
proof -
  let ?key = "getCacheKey svc ctx"
  obtain c st0 where look: "getCachedResponse ?key (nowLookup call) st = (c, st0)"
    by (cases "getCachedResponse ?key (nowLookup call) st")
  then have same: "costStats st0 = costStats st"
    by (auto simp: getCachedResponse_def split: option.splits if_splits)
  show ?thesis
  proof (cases c)
    case (Some cached)
    with look same show ?thesis by (simp add: askLLM_def countersGrow_def)
  next
    case None
    obtain r st2 n where loop: "retryLoop config svc ?key call 0 st0 = (r, st2, n)"
      by (cases "retryLoop config svc ?key call 0 st0")
    have "countersGrow (costStats st0) (costStats st2)"
    proof (cases r)
      case None
      with loop retryLoop_None have "st2 = st0" by blast
      then show ?thesis by (simp add: countersGrow_def)
    next
      case (Some s)
      with loop retryLoop_Some [of config svc ?key call 0 st0 s st2 n] show ?thesis
        by (simp add: countersGrow_def grown_def)
    qed
    with None look loop same show ?thesis by (simp add: askLLM_def)
  qed
qed

lemma applyOp_stats: "countersGrow (costStats st) (costStats (applyOp config svc st op))"
proof (cases op)
  case (Ask ctx call)
  with askLLM_stats show ?thesis by simp
next
  case (Lookup key now)
  then show ?thesis
    by (simp add: getCachedResponse_def countersGrow_def split: option.splits)
next
  case ReadStats
  then show ?thesis by (simp add: getCostStats_def Let_def countersGrow_def)
qed

lemma countersGrow_trans: "countersGrow a b \<Longrightarrow> countersGrow b c \<Longrightarrow> countersGrow a c"
  by (auto simp: countersGrow_def)

lemma foldl_applyOp_stats:
  "countersGrow (costStats st) (costStats (foldl (applyOp config svc) st ops))"
proof (induction ops arbitrary: st)
  case Nil
  show ?case by (simp add: countersGrow_def)
next
  case (Cons op ops)
  from applyOp_stats [of st config svc op] Cons [of "applyOp config svc st op"]
  show ?case by (auto intro: countersGrow_trans)
qed

lemma getCostStats_rate:
  "cacheHitRate (fst (getCostStats st)) =
     (if apiCalls (costStats st) + length (responseCache st) > 0
      then real (length (responseCache st))
             / real (apiCalls (costStats st) + length (responseCache st))
      else 0)
   \<and> 0 \<le> cacheHitRate (fst (getCostStats st)) \<and> cacheHitRate (fst (getCostStats st)) \<le> 1"
  by (auto simp: getCostStats_def Let_def divide_le_eq)

text \<open>
  Claim C9, as the code has it. Token counts are natural numbers. Over any sequence of
  calls of \<open>askLLM\<close>, cache lookups and readings of the statistics, \<open>totalTokens\<close>,
  \<open>estimatedCost\<close> and \<open>apiCalls\<close> never decrease. \<open>cacheHitRate\<close> is not
  accumulated: every reading of the statistics sets it to the number of cache entries
  divided by the number of cache entries plus \<open>apiCalls\<close> (0 when both are 0), a value
  between 0 and 1.
\<close>

theorem costStats_counters_monotone:
  "totalTokens (costStats st) \<le> totalTokens (costStats (foldl (applyOp config svc) st ops))
   \<and> estimatedCost (costStats st) \<le> estimatedCost (costStats (foldl (applyOp config svc) st ops))
   \<and> apiCalls (costStats st) \<le> apiCalls (costStats (foldl (applyOp config svc) st ops))
   \<and> cacheHitRate (fst (getCostStats st)) =
       (if apiCalls (costStats st) + length (responseCache st) > 0
        then real (length (responseCache st))
               / real (apiCalls (costStats st) + length (responseCache st))
        else 0)
   \<and> 0 \<le> cacheHitRate (fst (getCostStats st)) \<and> cacheHitRate (fst (getCostStats st)) \<le> 1"
  using foldl_applyOp_stats [of st config svc ops] getCostStats_rate [of st]
  by (simp add: countersGrow_def)

theorem costStats_counters_monotone_witness:
  "totalTokens (costStats (foldl (applyOp defaultConfig exampleService) initialClient
      [Ask exampleContext (callAt 0 ''A''), ReadStats,
       Ask exampleContext (callAt 3601201 ''A''), ReadStats])) = 1600
   \<and> apiCalls (costStats initialClient)
       \<le> apiCalls (costStats (foldl (applyOp defaultConfig exampleService) initialClient
            [Ask exampleContext (callAt 0 ''A''), ReadStats,
             Ask exampleContext (callAt 3601201 ''A''), ReadStats]))"
proof -
  have "totalTokens (costStats (foldl (applyOp defaultConfig exampleService) initialClient
      [Ask exampleContext (callAt 0 ''A''), ReadStats,
       Ask exampleContext (callAt 3601201 ''A''), ReadStats])) = 1600"
    by (simp add: client_defs retryLoop.simps [of _ _ _ _ 0] Let_def)
  with costStats_counters_monotone [of initialClient defaultConfig exampleService
      "[Ask exampleContext (callAt 0 ''A''), ReadStats,
        Ask exampleContext (callAt 3601201 ''A''), ReadStats]"]
  show ?thesis by blast
qed

text \<open>
  The claim as written fails for \<open>cacheHitRate\<close>: after one request the statistics read
  1/2; the entry expires, the same context is asked again, and the next reading of the
  statistics lowers the field to 1/3.
\<close>

theorem cacheHitRate_counterexample:
  "cacheHitRate (costStats (foldl (applyOp defaultConfig exampleService) initialClient
      [Ask exampleContext (callAt 0 ''A''), ReadStats])) = 1 / 2
   \<and> cacheHitRate (costStats (foldl (applyOp defaultConfig exampleService) initialClient
      [Ask exampleContext (callAt 0 ''A''), ReadStats,
       Ask exampleContext (callAt 3601201 ''A''), ReadStats])) = 1 / 3"
  by (simp add: client_defs retryLoop.simps [of _ _ _ _ 0] Let_def)

subsection \<open>Confidence floor\<close>

text \<open>
  Claim C8. Every suggestion in the list that \<open>runReview\<close> collects, and every one in
  the two lists that \<open>runAutofix\<close> collects, has confidence at least 0.3, whatever the
  cache holds; the suggestions given to the autofix are among the collected ones and
  pass the safety gate. The client filters too: a valid suggestion has confidence at
  least 0.3, so a suggestion that \<open>askLLM\<close> obtains from the service has.
\<close>

theorem collected_confidence_floor:
  "(\<forall>found st'. collectReview config svc [] contexts st = (found, st') \<longrightarrow>
       (\<forall>(s, c) \<in> set found. 0.3 \<le> confidence s))
   \<and> (\<forall>allS autoS st'. collectAutofix config svc [] [] contexts st = (allS, autoS, st') \<longrightarrow>
       (\<forall>(s, c) \<in> set allS. 0.3 \<le> confidence s)
       \<and> (\<forall>(s, c) \<in> set autoS. (s, c) \<in> set allS \<and> shouldAutoRename s \<and> 0.3 \<le> confidence s))
   \<and> (\<forall>s. isValidSuggestion s \<longrightarrow> 0.3 \<le> confidence s)
   \<and> (\<forall>ctx call s st1 n. askLLM config svc ctx call st = (Some s, st1, n) \<and> 0 < n \<longrightarrow>
       0.3 \<le> confidence s)"
proof -
  have review: "\<forall>(s, c) \<in> set found. 0.3 \<le> confidence s"
    if "collectReview config svc [] contexts st = (found, st')" for found st'
    using collectReview_confident [OF that] by simp
  have autofix: "(\<forall>(s, c) \<in> set allS. 0.3 \<le> confidence s)
       \<and> (\<forall>(s, c) \<in> set autoS. (s, c) \<in> set allS \<and> shouldAutoRename s \<and> 0.3 \<le> confidence s)"
    if "collectAutofix config svc [] [] contexts st = (allS, autoS, st')" for allS autoS st'
  proof -
    have "collected [] []" by (simp add: collected_def)
    with collectAutofix_confident [OF that] have "collected allS autoS" .
    then show ?thesis by (fastforce simp: collected_def)
  qed
  have fresh: "0.3 \<le> confidence s"
    if "askLLM config svc ctx call st = (Some s, st1, n) \<and> 0 < n" for ctx call s st1 n
    using that askLLM_fresh_valid isValidSuggestion_confidence by blast
  from review autofix isValidSuggestion_confidence fresh show ?thesis by blast
qed

theorem collected_confidence_floor_witness:
  "fst (collectAutofix defaultConfig exampleService [] []
          [(exampleContext, callAt 1000 ''A''), (tmpContext, callAt 2000 ''A'')] staleClient) =
     [(scenarioB False, tmpContext)]
   \<and> fst (collectReview defaultConfig exampleService []
          [(exampleContext, callAt 1000 ''A''), (tmpContext, callAt 2000 ''A'')] staleClient) =
     [(scenarioB False, tmpContext)]
   \<and> list_all (\<lambda>(s, c). 0.3 \<le> confidence s)
        (fst (collectAutofix defaultConfig exampleService [] []
          [(exampleContext, callAt 1000 ''A''), (tmpContext, callAt 2000 ''A'')] staleClient))"
proof -
  let ?contexts = "[(exampleContext, callAt 1000 ''A''), (tmpContext, callAt 2000 ''A'')]"
  let ?run = "collectAutofix defaultConfig exampleService [] [] ?contexts staleClient"
  have a: "fst ?run = [(scenarioB False, tmpContext)]"
    by (simp add: client_defs staleClient_def tmpContext_def retryLoop.simps [of _ _ _ _ 0]
        shouldAutoRename_def)
  have b: "fst (collectReview defaultConfig exampleService [] ?contexts staleClient) =
             [(scenarioB False, tmpContext)]"
    by (simp add: client_defs staleClient_def tmpContext_def retryLoop.simps [of _ _ _ _ 0])
  have run: "?run = (fst ?run, fst (snd ?run), snd (snd ?run))" by simp
  from collected_confidence_floor [of defaultConfig exampleService ?contexts staleClient] run
  have "\<forall>(s, c) \<in> set (fst ?run). 0.3 \<le> confidence s" by blast
  then have c: "list_all (\<lambda>(s, c). 0.3 \<le> confidence s) (fst ?run)"
    by (simp add: list_all_iff)
  from a b c show ?thesis by blast
qed

end
